theory Spec2Isabelle
  imports Main "HOL-Library.AList"
begin

section \<open>Data model of the transcoding task (apps/transcoding/task.py)\<close>

text \<open>
  \<open>SubtaskStatus\<close> is imported by the source from \<open>golem.task.taskstate\<close>; the members
  below are the ones \<open>task.py\<close> names: \<open>starting\<close> (set by \<open>query_extra_data\<close>),
  \<open>failure\<close> and \<open>restarted\<close> (read by \<open>_get_next_subtask\<close>), \<open>resent\<close> (set there),
  and \<open>finished\<close>, \<open>timeout\<close>, \<open>cancelled\<close> (read by \<open>_is_subtask_ended\<close>).
\<close>

datatype SubtaskStatus =
  starting | finished | failure | timeout | cancelled | resent | restarted

text \<open>
  The exceptions that the modelled code can raise. \<open>KeyError\<close> and \<open>IndexError\<close> come
  from dictionary and list subscripts, \<open>AssertionError\<close> from the two \<open>assert\<close>
  statements, \<open>UnknownDispatch\<close> from the base-class notification handlers,
  \<open>FileNotFoundError\<close> from \<open>os.makedirs\<close>, the last three from the task builder.
\<close>

datatype error =
  KeyError | IndexError | AssertionError | UnknownDispatch | FileNotFoundError
  | AttributeError | TypeError | TranscodingTaskBuilderException

text \<open>
  One entry of \<open>subtasks_given\<close>: the dictionary that \<open>query_extra_data\<close> builds.
  The keys \<open>perf\<close> and \<open>transcoding_params\<close> are an opaque payload that no modelled
  operation reads; they are left out.
\<close>

record subtask =
  subtask_id :: string
  subtask_num :: int
  node_id :: "string option"
  status :: SubtaskStatus

text \<open>
  What the task does to the world outside its own fields, in the order it does it:
  the calls of \<open>_merge_video\<close> to the ffmpeg API, the stream operator and the file system.
  \<open>RemoveIntermediateVideos d\<close> is \<open>remove_intermediate_videos(Path(d), '*')\<close>, with
  \<open>d\<close> the string the path object is made from. \<open>MoveMergedOutput dst\<close> is
  \<open>move(output_file, dst)\<close>, whose first operand is the path the merger returned.
\<close>

datatype effect =
  RemoveIntermediateVideos string
  | MergeAndReplaceVideoStreams string "string list" string string
  | MakeDirs string
  | MoveMergedOutput string

text \<open>
  The fields of a \<open>TranscodingTask\<close>. \<open>subtasks_given\<close> is a Python dictionary keyed by
  subtask id; it is iterated in insertion order, so it is an association list
  (a store to a new key appends, a store to an old key replaces in place:
  \<open>AList.update\<close>). \<open>total_tasks\<close> is what \<open>get_total_tasks()\<close> returns.
  \<open>resources\<close> and \<open>output_file\<close> are the fields of \<open>task_definition\<close> that
  \<open>_merge_video\<close> reads.
\<close>

record task =
  subtasks_given :: "(string \<times> subtask) list"
  total_tasks :: int
  last_task :: int
  num_tasks_received :: int
  num_failed_subtasks :: int
  subtask_exceeded_max_retries_after_fail :: bool
  number_of_failed_subtask_tries :: "(int \<times> int) list"
  chunks :: "string list"
  collected_files :: "string list"
  task_dir :: string
  resources_dir :: string
  resources :: "string list"
  output_file :: string
  effects :: "effect list"

definition MAX_SUBTASK_RETRIES_AFTER_FAIL :: int where
  "MAX_SUBTASK_RETRIES_AFTER_FAIL = 2"

text \<open>
  The state \<open>__init__\<close> and \<open>initialize\<close> leave behind when the splitter has
  produced the chunk files \<open>cs\<close>: \<open>initialize\<close> stores \<open>len(chunks)\<close> as the
  subtask count, nothing is dispatched, received or failed, and nothing is collected.
\<close>

definition new_task :: "string list \<Rightarrow> string list \<Rightarrow> string \<Rightarrow> task" where
  "new_task cs rs out =
     \<lparr> subtasks_given = [], total_tasks = int (length cs), last_task = 0,
       num_tasks_received = 0, num_failed_subtasks = 0,
       subtask_exceeded_max_retries_after_fail = False,
       number_of_failed_subtask_tries = [],
       chunks = cs, collected_files = [], task_dir = [], resources_dir = [],
       resources = rs, output_file = out, effects = [] \<rparr>"

section \<open>Path helpers (posixpath)\<close>

definition basename :: "string \<Rightarrow> string" where
  "basename p = rev (takeWhile (\<lambda>c. c \<noteq> CHR ''/'') (rev p))"

definition dirname :: "string \<Rightarrow> string" where
  "dirname p =
     (let head = rev (dropWhile (\<lambda>c. c \<noteq> CHR ''/'') (rev p)) in
      if head \<noteq> [] \<and> filter (\<lambda>c. c \<noteq> CHR ''/'') head \<noteq> []
      then rev (dropWhile (\<lambda>c. c = CHR ''/'') (rev head)) else head)"

definition path_join :: "string \<Rightarrow> string \<Rightarrow> string" where
  "path_join a b =
     (if b \<noteq> [] \<and> hd b = CHR ''/'' then b
      else if a = [] \<or> last a = CHR ''/'' then a @ b
      else a @ ''/'' @ b)"

section \<open>Base class: the parts of CoreTask that task.py calls through super()\<close>

text \<open>
  Modelled from the spec: \<open>CoreTask.accept_results\<close> (apps/core/task/coretask.py is not
  under src/). Spec 4.5: the notification handler resolves the dispatch id, sets the
  status accordingly, and fails with \<open>UnknownDispatch\<close> if the dispatch id does not match
  any outstanding dispatch (already resolved, or never issued). A dispatch is outstanding
  while its status is the one \<open>query_extra_data\<close> gave it.
\<close>

definition base_accept_results :: "task \<Rightarrow> string \<Rightarrow> (error + unit) \<times> task" where
  "base_accept_results t sid =
     (case map_of (subtasks_given t) sid of
        None \<Rightarrow> (Inl UnknownDispatch, t)
      | Some r \<Rightarrow>
          if status r = starting
          then (Inr (), t\<lparr>subtasks_given :=
                  AList.update sid (r\<lparr>status := finished\<rparr>) (subtasks_given t)\<rparr>)
          else (Inl UnknownDispatch, t))"

text \<open>
  Modelled from the spec: \<open>CoreTask.computation_failed\<close> (not under src/). Spec 4.5 as
  above, with the failed status; spec 4.3 step 1 decrements an outstanding-failure count
  when a failed chunk is picked again, so the failure handler is where it is incremented.
\<close>

definition base_computation_failed :: "task \<Rightarrow> string \<Rightarrow> (error + unit) \<times> task" where
  "base_computation_failed t sid =
     (case map_of (subtasks_given t) sid of
        None \<Rightarrow> (Inl UnknownDispatch, t)
      | Some r \<Rightarrow>
          if status r = starting
          then (Inr (), t\<lparr>subtasks_given :=
                  AList.update sid (r\<lparr>status := failure\<rparr>) (subtasks_given t),
                  num_failed_subtasks := num_failed_subtasks t + 1\<rparr>)
          else (Inl UnknownDispatch, t))"

text \<open>
  Modelled from the spec: \<open>CoreTask.needs_computation\<close> (not under src/). Spec 4.3: there
  is work while a failed chunk waits to be sent again or the dispatch cursor is below N.
\<close>

definition base_needs_computation :: "task \<Rightarrow> bool" where
  "base_needs_computation t \<longleftrightarrow> last_task t < total_tasks t \<or> 0 < num_failed_subtasks t"

text \<open>
  Modelled from the spec: \<open>CoreTask.finished_computation\<close> (not under src/). Spec 4.5:
  full success is reached when the count of succeeded chunks equals N.
\<close>

definition base_finished_computation :: "task \<Rightarrow> bool" where
  "base_finished_computation t \<longleftrightarrow> num_tasks_received t = total_tasks t"

section \<open>TranscodingTask\<close>

definition collect_results :: "task \<Rightarrow> string list \<Rightarrow> task" where
  "collect_results t results = t\<lparr>collected_files := collected_files t @ results\<rparr>"

text \<open>
  \<open>_merge_video\<close>: the intermediate videos are removed first, then the assertion on the
  resources is checked, then the merger runs, then the directory of the output file is
  made and the merged file is moved there. \<open>os.makedirs\<close> raises
  \<open>FileNotFoundError\<close> on the empty path, that is when \<open>output_file\<close> has no
  directory part; the move is then not reached. The merger and the file system are taken
  to accept every other call.
\<close>

definition merge_video :: "task \<Rightarrow> (error + bool) \<times> task" where
  "merge_video t =
     (let t1 = t\<lparr>effects := effects t @ [RemoveIntermediateVideos (resources_dir t)]\<rparr>;
          output_basename = basename (output_file t1)
      in if length (resources t1) \<noteq> 1 then (Inl AssertionError, t1)
         else
           let input_file = hd (resources t1);
               t2 = t1\<lparr>effects := effects t1 @
                      [MergeAndReplaceVideoStreams input_file (collected_files t1)
                         output_basename (task_dir t1)]\<rparr>
           in if dirname (output_file t2) = [] then (Inl FileNotFoundError, t2)
              else (Inr True,
                    t2\<lparr>effects := effects t2 @
                       [MakeDirs (dirname (output_file t2)),
                        MoveMergedOutput (output_file t2)]\<rparr>))"

definition accept_results :: "task \<Rightarrow> string \<Rightarrow> string list \<Rightarrow> (error + unit) \<times> task" where
  "accept_results t sid result_files =
     (case base_accept_results t sid of
        (Inl e, t1) \<Rightarrow> (Inl e, t1)
      | (Inr _, t1) \<Rightarrow>
          let t2 = collect_results t1 result_files;
              t3 = t2\<lparr>num_tasks_received := num_tasks_received t2 + 1\<rparr>
          in if num_tasks_received t3 = total_tasks t3
             then (case merge_video t3 of
                     (Inl e, t4) \<Rightarrow> (Inl e, t4)
                   | (Inr _, t4) \<Rightarrow> (Inr (), t4))
             else (Inr (), t3))"

definition needs_resend :: "string \<times> subtask \<Rightarrow> bool" where
  "needs_resend kr \<longleftrightarrow> status (snd kr) \<in> set [failure, restarted]"

text \<open>
  \<open>_get_next_subtask\<close>: \<open>next(iter(filter(...)), None)\<close> is the first entry of the
  dictionary, in its iteration order, whose status is \<open>failure\<close> or \<open>restarted\<close>
  (an entry is a non-empty dictionary, so \<open>if failed_subtask\<close> holds whenever one is found).
  The assignment to \<open>failed_subtask['status']\<close> writes to that entry, which the
  dictionary holds under its key; the keys of a dictionary are distinct.
\<close>

definition get_next_subtask :: "task \<Rightarrow> (error + int) \<times> task" where
  "get_next_subtask t =
     (case find needs_resend (subtasks_given t) of
        Some (k, failed_subtask) \<Rightarrow>
          (Inr (subtask_num failed_subtask),
           t\<lparr>subtasks_given :=
                AList.update k (failed_subtask\<lparr>status := resent\<rparr>) (subtasks_given t),
             num_failed_subtasks := num_failed_subtasks t - 1\<rparr>)
      | None \<Rightarrow>
          if last_task t < total_tasks t
          then (Inr (last_task t), t\<lparr>last_task := last_task t + 1\<rparr>)
          else (Inl AssertionError, t))"

definition get_subtask_number_from_id :: "task \<Rightarrow> string \<Rightarrow> error + int" where
  "get_subtask_number_from_id t sid =
     (case map_of (subtasks_given t) sid of
        None \<Rightarrow> Inl KeyError
      | Some r \<Rightarrow> Inr (subtask_num r))"

definition should_retry_failed_subtask :: "task \<Rightarrow> string \<Rightarrow> error + bool" where
  "should_retry_failed_subtask t failed_subtask_id =
     (case get_subtask_number_from_id t failed_subtask_id of
        Inl e \<Rightarrow> Inl e
      | Inr task_number \<Rightarrow>
          (case map_of (number_of_failed_subtask_tries t) task_number of
             None \<Rightarrow> Inl KeyError
           | Some number_of_fails \<Rightarrow>
               Inr (number_of_fails < MAX_SUBTASK_RETRIES_AFTER_FAIL)))"

definition increment_number_of_subtask_fails :: "task \<Rightarrow> string \<Rightarrow> (error + unit) \<times> task" where
  "increment_number_of_subtask_fails t failed_subtask_id =
     (case get_subtask_number_from_id t failed_subtask_id of
        Inl e \<Rightarrow> (Inl e, t)
      | Inr subtask_number \<Rightarrow>
          let tries = number_of_failed_subtask_tries t;
              tries1 = (if subtask_number \<notin> set (map fst tries)
                        then AList.update subtask_number 0 tries else tries)
          in (case map_of tries1 subtask_number of
                None \<Rightarrow> (Inl KeyError, t\<lparr>number_of_failed_subtask_tries := tries1\<rparr>)
              | Some c \<Rightarrow>
                  (Inr (), t\<lparr>number_of_failed_subtask_tries :=
                             AList.update subtask_number (c + 1) tries1\<rparr>)))"

definition needs_computation :: "task \<Rightarrow> bool" where
  "needs_computation t =
     (if subtask_exceeded_max_retries_after_fail t then False
      else base_needs_computation t)"

definition computation_failed :: "task \<Rightarrow> string \<Rightarrow> (error + unit) \<times> task" where
  "computation_failed t sid =
     (case increment_number_of_subtask_fails t sid of
        (Inl e, t1) \<Rightarrow> (Inl e, t1)
      | (Inr _, t1) \<Rightarrow>
          (case should_retry_failed_subtask t1 sid of
             Inl e \<Rightarrow> (Inl e, t1)
           | Inr retry \<Rightarrow>
               let t2 = (if \<not> retry
                         then t1\<lparr>subtask_exceeded_max_retries_after_fail := True\<rparr>
                         else t1)
               in base_computation_failed t2 sid))"

definition is_subtask_ended :: "subtask \<Rightarrow> bool" where
  "is_subtask_ended s \<longleftrightarrow>
     status s \<in> set [finished, failure, timeout, cancelled, resent]"

definition all_subtasks_have_ended_status :: "task \<Rightarrow> bool" where
  "all_subtasks_have_ended_status t =
     (let subtasks = map snd (subtasks_given t);
          ended_subtasks = filter is_subtask_ended subtasks
      in length ended_subtasks = length subtasks)"

definition finished_computation :: "task \<Rightarrow> bool" where
  "finished_computation t =
     (if subtask_exceeded_max_retries_after_fail t
      then all_subtasks_have_ended_status t
      else base_finished_computation t)"

text \<open>
  \<open>query_extra_data\<close>. The fresh subtask id of \<open>create_subtask_id()\<close> is the argument
  \<open>sid\<close>. The entry is stored before \<open>self.chunks[subtask_num]\<close> is read, so an
  \<open>IndexError\<close> there leaves the entry behind. The result is the subtask id, the chunk
  number and the chunk file of the computing definition.
\<close>

definition list_subscript :: "'a list \<Rightarrow> int \<Rightarrow> error + 'a" where
  "list_subscript xs i =
     (if 0 \<le> i \<and> i < int (length xs) then Inr (xs ! nat i)
      else if i < 0 \<and> - int (length xs) \<le> i then Inr (xs ! nat (int (length xs) + i))
      else Inl IndexError)"

definition query_extra_data ::
  "task \<Rightarrow> string \<Rightarrow> string option \<Rightarrow> (error + string \<times> int \<times> string) \<times> task" where
  "query_extra_data t sid nid =
     (case get_next_subtask t of
        (Inl e, t1) \<Rightarrow> (Inl e, t1)
      | (Inr n, t1) \<Rightarrow>
          let st = \<lparr>subtask_id = sid, subtask_num = n, node_id = nid, status = starting\<rparr>;
              t2 = t1\<lparr>subtasks_given := AList.update sid st (subtasks_given t1)\<rparr>
          in (case list_subscript (chunks t2) n of
                Inl e \<Rightarrow> (Inl e, t2)
              | Inr c \<Rightarrow> (Inr (sid, n, c), t2)))"

section \<open>Sequences of calls\<close>

text \<open>
  The three entry points of the task that change it, as the surrounding system calls
  them. A call that raises leaves the task as it was at the raise; the caller goes on.
\<close>

datatype call =
  QueryExtraData string "string option"
  | AcceptResults string "string list"
  | ComputationFailed string

fun step :: "task \<Rightarrow> call \<Rightarrow> task" where
  "step t (QueryExtraData sid nid) = snd (query_extra_data t sid nid)"
| "step t (AcceptResults sid result_files) = snd (accept_results t sid result_files)"
| "step t (ComputationFailed sid) = snd (computation_failed t sid)"

definition run :: "task \<Rightarrow> call list \<Rightarrow> task" where
  "run t cs = foldl step t cs"

fun is_merge :: "effect \<Rightarrow> bool" where
  "is_merge (MergeAndReplaceVideoStreams _ _ _ _) = True"
| "is_merge _ = False"

text \<open>The effects that produce or relocate the output: all but the clean-up.\<close>

fun produces_output :: "effect \<Rightarrow> bool" where
  "produces_output (RemoveIntermediateVideos _) = False"
| "produces_output _ = True"

text \<open>How often the merger has been invoked.\<close>

definition merge_count :: "task \<Rightarrow> nat" where
  "merge_count t = length (filter is_merge (effects t))"

text \<open>
  What holds of a task however it is called: the merger has run at most once, and if it
  has run, the received count has reached the total.
\<close>

definition merge_inv :: "task \<Rightarrow> bool" where
  "merge_inv t \<longleftrightarrow>
     merge_count t \<le> 1 \<and> (0 < merge_count t \<longrightarrow> total_tasks t \<le> num_tasks_received t)"

definition failure_count :: "task \<Rightarrow> int \<Rightarrow> int" where
  "failure_count t n =
     (case map_of (number_of_failed_subtask_tries t) n of None \<Rightarrow> 0 | Some c \<Rightarrow> c)"

section \<open>TranscodingTaskBuilder.get_output_path\<close>

text \<open>
  The values of the configuration dictionary that \<open>get_output_path\<close> meets: strings and
  dictionaries. \<open>py_str\<close> is what \<open>'{}'.format\<close> prints: a string as it is, a
  dictionary as its \<open>repr\<close> (strings inside in single quotes; the strings modelled hold no
  quote, backslash or control character).
\<close>

datatype pyval = PStr string | PDict "(string \<times> pyval) list"

fun join_with :: "string \<Rightarrow> string list \<Rightarrow> string" where
  "join_with sep [] = []"
| "join_with sep [x] = x"
| "join_with sep (x # y # ys) = x @ sep @ join_with sep (y # ys)"

definition quoted :: "string \<Rightarrow> string" where
  "quoted s = [CHR 0x27] @ s @ [CHR 0x27]"

fun py_repr :: "pyval \<Rightarrow> string" where
  "py_repr (PStr s) = quoted s"
| "py_repr (PDict kvs) =
     ''{'' @ join_with '', '' (map (\<lambda>(k, v). quoted k @ '': '' @ py_repr v) kvs) @ ''}''"

fun py_str :: "pyval \<Rightarrow> string" where
  "py_str (PStr s) = s"
| "py_str v = py_repr v"

fun truthy :: "pyval \<Rightarrow> bool" where
  "truthy (PStr s) = (s \<noteq> [])"
| "truthy (PDict kvs) = (kvs \<noteq> [])"

text \<open>The fields of \<open>definition\<close> that \<open>get_output_path\<close> reads.\<close>

record task_definition =
  name :: string
  input_stream_path :: string

text \<open>
  \<open>_get_presets\<close>; \<open>isfile\<close> is \<open>os.path.isfile\<close> on the file system of the call.
\<close>

definition get_presets :: "(string \<Rightarrow> bool) \<Rightarrow> string \<Rightarrow> error + (string \<times> pyval) list" where
  "get_presets isfile path =
     (if \<not> isfile path then Inl TranscodingTaskBuilderException
      else Inr [(''container'', PStr ''mp4'')])"

definition get_required_field ::
  "(string \<times> pyval) list \<Rightarrow> string \<Rightarrow> (pyval \<Rightarrow> bool) \<Rightarrow> error + pyval" where
  "get_required_field dictionary key validator =
     (case map_of dictionary key of
        None \<Rightarrow> Inl TranscodingTaskBuilderException
      | Some v \<Rightarrow>
          if truthy v \<and> validator v then Inr v
          else Inl TranscodingTaskBuilderException)"

text \<open>\<open>is_type_of(dict)\<close>, the validator \<open>get_output_path\<close> passes.\<close>

fun is_type_of_dict :: "pyval \<Rightarrow> bool" where
  "is_type_of_dict (PDict _) = True"
| "is_type_of_dict _ = False"

text \<open>
  \<open>get_output_path\<close>. Python evaluates the default argument of \<open>options.get\<close> before
  the call, so \<open>_get_presets\<close> runs (and may raise) whether or not a container is given;
  the default it passes is the dictionary \<open>_get_presets\<close> returns.
\<close>

definition get_output_path ::
  "(string \<Rightarrow> bool) \<Rightarrow> (string \<times> pyval) list \<Rightarrow> task_definition \<Rightarrow> error + string" where
  "get_output_path isfile dictionary defn =
     (case get_required_field dictionary ''options'' is_type_of_dict of
        Inl e \<Rightarrow> Inl e
      | Inr (PStr _) \<Rightarrow> Inl AttributeError
      | Inr (PDict options) \<Rightarrow>
          (case get_presets isfile (input_stream_path defn) of
             Inl e \<Rightarrow> Inl e
           | Inr presets \<Rightarrow>
               let container = (case map_of options ''container'' of
                                  Some c \<Rightarrow> c | None \<Rightarrow> PDict presets);
                   alternative_name = name defn @ ''.'' @ py_str container;
                   filename = (case map_of options ''output_filename'' of
                                 Some f \<Rightarrow> f | None \<Rightarrow> PStr alternative_name)
               in (case map_of options ''output_path'' of
                     None \<Rightarrow> Inl KeyError
                   | Some (PStr p) \<Rightarrow>
                       (case filename of
                          PStr f \<Rightarrow> Inr (path_join p f)
                        | PDict _ \<Rightarrow> Inl TypeError)
                   | Some (PDict _) \<Rightarrow> Inl TypeError)))"

section \<open>Invariants of the registry\<close>

text \<open>
  Properties of \<open>subtasks_given\<close>, read as a map from subtask id to entry, that every
  sequence of calls on a new task keeps. \<open>closed_map n\<close>: every entry of chunk \<open>n\<close> is
  \<open>finished\<close> or \<open>resent\<close>. \<open>open_unique\<close>: a chunk has at most one entry that is
  not \<open>resent\<close>. \<open>below_cursor\<close>: every entry is of a chunk below the cursor.
\<close>

definition closed_map :: "int \<Rightarrow> (string \<rightharpoonup> subtask) \<Rightarrow> bool" where
  "closed_map n m \<longleftrightarrow>
     (\<forall>k r. m k = Some r \<and> subtask_num r = n \<longrightarrow> status r = finished \<or> status r = resent)"

definition open_unique :: "(string \<rightharpoonup> subtask) \<Rightarrow> bool" where
  "open_unique m \<longleftrightarrow>
     (\<forall>k k' r r'. m k = Some r \<and> m k' = Some r' \<and> subtask_num r = subtask_num r' \<and>
        status r \<noteq> resent \<and> status r' \<noteq> resent \<longrightarrow> k = k')"

definition below_cursor :: "(string \<rightharpoonup> subtask) \<Rightarrow> int \<Rightarrow> bool" where
  "below_cursor m c \<longleftrightarrow> (\<forall>k r. m k = Some r \<longrightarrow> subtask_num r < c)"

definition registry_inv :: "task \<Rightarrow> bool" where
  "registry_inv t \<longleftrightarrow>
     distinct (map fst (subtasks_given t)) \<and>
     below_cursor (map_of (subtasks_given t)) (last_task t) \<and>
     open_unique (map_of (subtasks_given t))"

definition chunk_closed :: "int \<Rightarrow> task \<Rightarrow> bool" where
  "chunk_closed n t \<longleftrightarrow>
     distinct (map fst (subtasks_given t)) \<and> n < last_task t \<and>
     closed_map n (map_of (subtasks_given t))"

section \<open>Example tasks and inputs\<close>

text \<open>A task of two chunks with one input resource, as \<open>initialize\<close> leaves it.\<close>

definition demo_task :: task where
  "demo_task = new_task [''c0'', ''c1''] [''in.mp4''] ''out/final.mp4''"

text \<open>Chunk 0 is dispatched to \<open>a\<close>; nothing else has happened.\<close>

definition one_dispatched_task :: task where
  "one_dispatched_task = run demo_task [QueryExtraData ''a'' None]"

text \<open>Both chunks are dispatched, none has failed: the cursor has reached N.\<close>

definition exhausted_task :: task where
  "exhausted_task = run demo_task [QueryExtraData ''a'' None, QueryExtraData ''b'' None]"

text \<open>Both chunks are dispatched and the result of chunk 0 is in; chunk 1 is awaited.\<close>

definition last_result_pending_task :: task where
  "last_result_pending_task = run demo_task
     [QueryExtraData ''a'' None, QueryExtraData ''b'' None, AcceptResults ''a'' [''r0'']]"

text \<open>Both results are accepted, the one of chunk 1 before the one of chunk 0.\<close>

definition swapped_results_task :: task where
  "swapped_results_task = run demo_task
     [QueryExtraData ''a'' None, QueryExtraData ''b'' None,
      AcceptResults ''b'' [''r1''], AcceptResults ''a'' [''r0'']]"

text \<open>Chunk 0 succeeds; chunk 1 fails, is sent again as \<open>c\<close> and fails again.\<close>

definition partial_failure_task :: task where
  "partial_failure_task = run demo_task
     [QueryExtraData ''a'' None, QueryExtraData ''b'' None, AcceptResults ''a'' [''r0''],
      ComputationFailed ''b'', QueryExtraData ''c'' None, ComputationFailed ''c'']"

text \<open>Chunk 0 has failed once and is out again as \<open>b\<close>; chunk 1 was never dispatched.\<close>

definition once_failed_task :: task where
  "once_failed_task = run demo_task
     [QueryExtraData ''a'' None, ComputationFailed ''a'', QueryExtraData ''b'' None]"

text \<open>The same, after \<open>b\<close> has failed too.\<close>

definition early_latch_task :: task where
  "early_latch_task = run once_failed_task [ComputationFailed ''b'']"

text \<open>
  Chunk 0 fails and is sent again as \<open>c\<close>, after chunk 1 went out as \<open>b\<close>; then
  \<open>b\<close> fails, then \<open>c\<close>.
\<close>

definition out_of_order_task :: task where
  "out_of_order_task = run demo_task
     [QueryExtraData ''a'' None, QueryExtraData ''b'' None, ComputationFailed ''a'',
      QueryExtraData ''c'' None, ComputationFailed ''b'', ComputationFailed ''c'']"

text \<open>A task of one chunk whose definition lists two resources; the chunk is out as \<open>a\<close>.\<close>

definition two_inputs_task :: task where
  "two_inputs_task =
     run (new_task [''c0''] [''in1.mp4'', ''in2.mp4''] ''out/final.mp4'')
       [QueryExtraData ''a'' None]"

text \<open>The two-chunk task with an output file that names no directory.\<close>

definition bare_output_task :: task where
  "bare_output_task = new_task [''c0'', ''c1''] [''in.mp4''] ''final.mp4''"

text \<open>
  A configuration with an output path and neither container nor file name, for a
  definition named \<open>clip\<close> whose input file exists.
\<close>

definition every_file_exists :: "string \<Rightarrow> bool" where
  "every_file_exists p = True"

definition default_container_dictionary :: "(string \<times> pyval) list" where
  "default_container_dictionary = [(''options'', PDict [(''output_path'', PStr ''/out'')])]"

definition clip_definition :: task_definition where
  "clip_definition = \<lparr>name = ''clip'', input_stream_path = ''/in/clip.avi''\<rparr>"

section \<open>Auxiliary facts\<close>

lemma alist_update_nth:
  "distinct (map fst xs) \<Longrightarrow> i < length xs \<Longrightarrow> AList.update (fst (xs ! i)) v xs = xs[i := (fst (xs ! i), v)]"
proof (induction xs arbitrary: i)
  case Nil
  then show ?case by simp
next
  case (Cons x xs)
  show ?case
  proof (cases i)
    case 0
    then show ?thesis by (cases x) simp
  next
    case (Suc j)
    with Cons.prems have j: "j < length xs" and d: "distinct (map fst xs)" and nx: "fst x \<notin> fst ` set xs"
      by auto
    from j have "fst (xs ! j) \<in> fst ` set xs" by simp
    with nx have "fst (xs ! j) \<noteq> fst x" by metis
    with Suc Cons.IH[OF d j] show ?thesis by (cases x) auto
  qed
qed

lemma filter_all: "length (filter P xs) = length xs \<longleftrightarrow> (\<forall>x \<in> set xs. P x)"
proof (induction xs)
  case Nil
  then show ?case by simp
next
  case (Cons x xs)
  have "length (filter P xs) \<noteq> Suc (length xs)"
    using length_filter_le[of P xs] by linarith
  with Cons show ?case by auto
qed

lemma base_accept_results_fields:
  "effects (snd (base_accept_results t sid)) = effects t"
  "num_tasks_received (snd (base_accept_results t sid)) = num_tasks_received t"
  "total_tasks (snd (base_accept_results t sid)) = total_tasks t"
  "resources (snd (base_accept_results t sid)) = resources t"
  "collected_files (snd (base_accept_results t sid)) = collected_files t"
  "subtask_exceeded_max_retries_after_fail (snd (base_accept_results t sid)) =
     subtask_exceeded_max_retries_after_fail t"
  by (simp_all add: base_accept_results_def split: option.splits)

lemma base_computation_failed_fields:
  "effects (snd (base_computation_failed t sid)) = effects t"
  "num_tasks_received (snd (base_computation_failed t sid)) = num_tasks_received t"
  "total_tasks (snd (base_computation_failed t sid)) = total_tasks t"
  "number_of_failed_subtask_tries (snd (base_computation_failed t sid)) =
     number_of_failed_subtask_tries t"
  "subtask_exceeded_max_retries_after_fail (snd (base_computation_failed t sid)) =
     subtask_exceeded_max_retries_after_fail t"
  by (simp_all add: base_computation_failed_def split: option.splits)

lemma increment_fields:
  "effects (snd (increment_number_of_subtask_fails t sid)) = effects t"
  "num_tasks_received (snd (increment_number_of_subtask_fails t sid)) = num_tasks_received t"
  "total_tasks (snd (increment_number_of_subtask_fails t sid)) = total_tasks t"
  "subtasks_given (snd (increment_number_of_subtask_fails t sid)) = subtasks_given t"
  "subtask_exceeded_max_retries_after_fail (snd (increment_number_of_subtask_fails t sid)) =
     subtask_exceeded_max_retries_after_fail t"
  by (simp_all add: increment_number_of_subtask_fails_def Let_def split: sum.splits option.splits)

lemma computation_failed_fields:
  "effects (snd (computation_failed t sid)) = effects t"
  "num_tasks_received (snd (computation_failed t sid)) = num_tasks_received t"
  "total_tasks (snd (computation_failed t sid)) = total_tasks t"
  by (simp_all add: computation_failed_def Let_def base_computation_failed_fields increment_fields
      case_prod_beta split: sum.splits)

lemma computation_failed_latch:
  "subtask_exceeded_max_retries_after_fail t \<Longrightarrow>
   subtask_exceeded_max_retries_after_fail (snd (computation_failed t sid))"
  by (simp add: computation_failed_def Let_def base_computation_failed_fields increment_fields
      case_prod_beta split: sum.splits)

lemma get_next_subtask_fields:
  "effects (snd (get_next_subtask t)) = effects t"
  "num_tasks_received (snd (get_next_subtask t)) = num_tasks_received t"
  "total_tasks (snd (get_next_subtask t)) = total_tasks t"
  "chunks (snd (get_next_subtask t)) = chunks t"
  "subtask_exceeded_max_retries_after_fail (snd (get_next_subtask t)) =
     subtask_exceeded_max_retries_after_fail t"
  by (simp_all add: get_next_subtask_def case_prod_beta split: option.splits)

lemma query_extra_data_fields:
  "effects (snd (query_extra_data t sid nid)) = effects t"
  "num_tasks_received (snd (query_extra_data t sid nid)) = num_tasks_received t"
  "total_tasks (snd (query_extra_data t sid nid)) = total_tasks t"
  "subtask_exceeded_max_retries_after_fail (snd (query_extra_data t sid nid)) =
     subtask_exceeded_max_retries_after_fail t"
  by (simp_all add: query_extra_data_def Let_def get_next_subtask_fields
      case_prod_beta split: sum.splits)

lemma merge_video_fields:
  "num_tasks_received (snd (merge_video t)) = num_tasks_received t"
  "total_tasks (snd (merge_video t)) = total_tasks t"
  "subtask_exceeded_max_retries_after_fail (snd (merge_video t)) =
     subtask_exceeded_max_retries_after_fail t"
  by (simp_all add: merge_video_def Let_def)

lemma accept_results_fields:
  "total_tasks (snd (accept_results t sid fs)) = total_tasks t"
  "subtask_exceeded_max_retries_after_fail (snd (accept_results t sid fs)) =
     subtask_exceeded_max_retries_after_fail t"
  by (simp_all add: accept_results_def Let_def collect_results_def merge_video_fields
      base_accept_results_fields case_prod_beta split: sum.splits)

lemma step_latch:
  "subtask_exceeded_max_retries_after_fail t \<Longrightarrow> subtask_exceeded_max_retries_after_fail (step t c)"
  by (cases c) (simp_all add: query_extra_data_fields accept_results_fields computation_failed_latch)

lemma run_latch:
  "subtask_exceeded_max_retries_after_fail t \<Longrightarrow> subtask_exceeded_max_retries_after_fail (run t cs)"
  unfolding run_def by (induction cs arbitrary: t) (simp_all add: step_latch)

lemma increment_tries:
  assumes "map_of (subtasks_given t) sid = Some r"
  shows "increment_number_of_subtask_fails t sid =
           (Inr (), t\<lparr>number_of_failed_subtask_tries :=
              AList.update (subtask_num r) (failure_count t (subtask_num r) + 1)
                (if subtask_num r \<notin> set (map fst (number_of_failed_subtask_tries t))
                 then AList.update (subtask_num r) 0 (number_of_failed_subtask_tries t)
                 else number_of_failed_subtask_tries t)\<rparr>)"
proof (cases "map_of (number_of_failed_subtask_tries t) (subtask_num r)")
  case None
  then have "subtask_num r \<notin> set (map fst (number_of_failed_subtask_tries t))"
    by (simp add: map_of_eq_None_iff)
  with None assms show ?thesis
    by (simp add: increment_number_of_subtask_fails_def get_subtask_number_from_id_def
        failure_count_def update_conv')
next
  case (Some c)
  then have "subtask_num r \<in> set (map fst (number_of_failed_subtask_tries t))"
    by (metis map_of_eq_None_iff option.distinct(1) set_map)
  with Some assms show ?thesis
    by (simp add: increment_number_of_subtask_fails_def get_subtask_number_from_id_def
        failure_count_def)
qed

lemma increment_counts:
  assumes "map_of (subtasks_given t) sid = Some r"
  shows "map_of (number_of_failed_subtask_tries (snd (increment_number_of_subtask_fails t sid))) n =
           (if n = subtask_num r then Some (failure_count t (subtask_num r) + 1)
            else map_of (number_of_failed_subtask_tries t) n)"
  by (simp add: increment_tries[OF assms] update_conv')

lemma base_computation_failed_num:
  "map_of (subtasks_given t) sid = Some r \<Longrightarrow>
   \<exists>r'. map_of (subtasks_given (snd (base_computation_failed t sid))) sid = Some r' \<and>
        subtask_num r' = subtask_num r"
  by (simp add: base_computation_failed_def update_conv')

lemma computation_failed_known:
  assumes r: "map_of (subtasks_given t) sid = Some r"
  shows "computation_failed t sid =
           base_computation_failed
             (if failure_count t (subtask_num r) + 1 < MAX_SUBTASK_RETRIES_AFTER_FAIL
              then snd (increment_number_of_subtask_fails t sid)
              else (snd (increment_number_of_subtask_fails t sid))
                     \<lparr>subtask_exceeded_max_retries_after_fail := True\<rparr>) sid"
proof -
  let ?t1 = "snd (increment_number_of_subtask_fails t sid)"
  have i: "increment_number_of_subtask_fails t sid = (Inr (), ?t1)"
    by (simp add: increment_tries[OF r])
  have s: "should_retry_failed_subtask ?t1 sid =
             Inr (failure_count t (subtask_num r) + 1 < MAX_SUBTASK_RETRIES_AFTER_FAIL)"
    using r by (simp add: should_retry_failed_subtask_def get_subtask_number_from_id_def
        increment_fields increment_counts[OF r])
  have "computation_failed t sid =
          (case should_retry_failed_subtask ?t1 sid of
             Inl e \<Rightarrow> (Inl e, ?t1)
           | Inr retry \<Rightarrow>
               base_computation_failed
                 (if \<not> retry then ?t1\<lparr>subtask_exceeded_max_retries_after_fail := True\<rparr>
                  else ?t1) sid)"
    unfolding computation_failed_def Let_def by (subst i) simp
  then show ?thesis
    unfolding s by simp
qed

lemma computation_failed_tries:
  assumes r: "map_of (subtasks_given t) sid = Some r"
  shows "map_of (number_of_failed_subtask_tries (snd (computation_failed t sid))) n =
           (if n = subtask_num r then Some (failure_count t (subtask_num r) + 1)
            else map_of (number_of_failed_subtask_tries t) n)"
  unfolding computation_failed_known[OF r]
  by (simp add: base_computation_failed_fields increment_counts[OF r])

lemma computation_failed_latch_iff:
  assumes r: "map_of (subtasks_given t) sid = Some r"
  shows "subtask_exceeded_max_retries_after_fail (snd (computation_failed t sid)) \<longleftrightarrow>
           subtask_exceeded_max_retries_after_fail t \<or>
           \<not> failure_count t (subtask_num r) + 1 < MAX_SUBTASK_RETRIES_AFTER_FAIL"
  unfolding computation_failed_known[OF r]
  by (simp add: base_computation_failed_fields increment_fields)

lemma computation_failed_keeps_num:
  assumes r: "map_of (subtasks_given t) sid = Some r"
  shows "\<exists>r'. map_of (subtasks_given (snd (computation_failed t sid))) sid = Some r' \<and>
              subtask_num r' = subtask_num r"
proof -
  let ?t2 = "if failure_count t (subtask_num r) + 1 < MAX_SUBTASK_RETRIES_AFTER_FAIL
              then snd (increment_number_of_subtask_fails t sid)
              else (snd (increment_number_of_subtask_fails t sid))
                     \<lparr>subtask_exceeded_max_retries_after_fail := True\<rparr>"
  have "map_of (subtasks_given ?t2) sid = Some r"
    using r by (simp add: increment_fields)
  from base_computation_failed_num[OF this] show ?thesis
    unfolding computation_failed_known[OF r] .
qed

lemma latched_forever:
  assumes "subtask_exceeded_max_retries_after_fail t"
  shows "subtask_exceeded_max_retries_after_fail (run t cs) \<and> \<not> needs_computation (run t cs)"
  using run_latch[OF assms, of cs] by (simp add: needs_computation_def)

lemma get_next_subtask_latch:
  "get_next_subtask (u\<lparr>subtask_exceeded_max_retries_after_fail := b\<rparr>) =
     (fst (get_next_subtask u),
      (snd (get_next_subtask u))\<lparr>subtask_exceeded_max_retries_after_fail := b\<rparr>)"
  by (simp add: get_next_subtask_def split: option.splits)

lemma query_extra_data_latch:
  "fst (query_extra_data (u\<lparr>subtask_exceeded_max_retries_after_fail := b\<rparr>) sid nid) =
   fst (query_extra_data u sid nid)"
  by (simp add: query_extra_data_def get_next_subtask_latch get_next_subtask_fields
      case_prod_beta Let_def split: sum.splits)

section \<open>C8: a failure notification with an unknown subtask id\<close>

text \<open>
  C8, as the code has it: when the subtask id of a failure notification is not a key of
  \<open>subtasks_given\<close>, \<open>computation_failed\<close> raises \<open>KeyError\<close> in its first
  statement (the subscript in \<open>_get_subtask_number_from_id\<close>), before anything is
  written: the failure counters, the latch and every status are as they were, and the
  error leaves the handler.
\<close>

theorem unknown_id_raises_keyerror:
  "map_of (subtasks_given t) sid = None \<Longrightarrow> computation_failed t sid = (Inl KeyError, t)"
  by (simp add: computation_failed_def increment_number_of_subtask_fails_def
      get_subtask_number_from_id_def)

theorem unknown_id_raises_keyerror_witness:
  "map_of (subtasks_given one_dispatched_task) ''zz'' = None \<and>
   computation_failed one_dispatched_task ''zz'' = (Inl KeyError, one_dispatched_task)"
proof -
  have h: "map_of (subtasks_given one_dispatched_task) ''zz'' = None"
    by code_simp
  from unknown_id_raises_keyerror[OF h] h show ?thesis by simp
qed

text \<open>
  C8 as stated fails: on the task with the dispatches \<open>a\<close> and \<open>b\<close>, a failure
  notification for the id \<open>ghost\<close> comes back as a raised \<open>KeyError\<close>.
\<close>

theorem unknown_id_propagates:
  "fst (computation_failed exhausted_task ''ghost'') = Inl KeyError"
  by code_simp

section \<open>C3: selection when nothing is left\<close>

text \<open>
  C3, as the code has it: when no recorded subtask has status \<open>failure\<close> or
  \<open>restarted\<close> and the cursor \<open>last_task\<close> has reached the total,
  \<open>_get_next_subtask\<close> fails its assertion: it raises \<open>AssertionError\<close> and leaves
  the task unchanged, and so does \<open>query_extra_data\<close>. There is no value for "no more
  work"; the caller learns it from \<open>needs_computation\<close>.
\<close>

theorem exhausted_selection_asserts:
  assumes "\<forall>kr \<in> set (subtasks_given t). status (snd kr) \<notin> {failure, restarted}"
    and "total_tasks t \<le> last_task t"
  shows "get_next_subtask t = (Inl AssertionError, t) \<and>
         query_extra_data t sid nid = (Inl AssertionError, t)"
proof -
  from assms(1) have "find needs_resend (subtasks_given t) = None"
    by (auto simp: find_None_iff needs_resend_def)
  with assms(2) have "get_next_subtask t = (Inl AssertionError, t)"
    by (simp add: get_next_subtask_def)
  then show ?thesis by (simp add: query_extra_data_def)
qed

theorem exhausted_selection_asserts_witness:
  "map (status \<circ> snd) (subtasks_given exhausted_task) = [starting, starting] \<and>
   total_tasks exhausted_task \<le> last_task exhausted_task \<and>
   get_next_subtask exhausted_task = (Inl AssertionError, exhausted_task) \<and>
   query_extra_data exhausted_task ''c'' None = (Inl AssertionError, exhausted_task)"
proof -
  have h0: "map (status \<circ> snd) (subtasks_given exhausted_task) = [starting, starting]"
    by code_simp
  have h1: "\<forall>kr \<in> set (subtasks_given exhausted_task). status (snd kr) \<notin> {failure, restarted}"
    by code_simp
  have h2: "total_tasks exhausted_task \<le> last_task exhausted_task"
    by code_simp
  from exhausted_selection_asserts[OF h1 h2, of "''c''" None] h0 h2 show ?thesis by blast
qed

text \<open>
  C3 as stated fails: with both chunks of the two-chunk task dispatched and none failed,
  the selector does not return; it raises.
\<close>

theorem exhausted_selection_raises:
  "last_task exhausted_task = total_tasks exhausted_task \<and>
   find needs_resend (subtasks_given exhausted_task) = None \<and>
   fst (get_next_subtask exhausted_task) = Inl AssertionError \<and>
   fst (query_extra_data exhausted_task ''c'' None) = Inl AssertionError"
  by code_simp

section \<open>C4: bounded retries\<close>

text \<open>
  C4, as the code has it: a failure notification for a recorded subtask adds exactly one
  to the failure counter of its chunk (a missing counter counts as zero, so the first
  failure leaves 1) and touches no other counter; the chunk may be retried iff the
  counter is below \<open>MAX_SUBTASK_RETRIES_AFTER_FAIL = 2\<close>; the latch
  \<open>subtask_exceeded_max_retries_after_fail\<close> is set by exactly the notification that
  makes this false; once it is set it stays set whatever is called afterwards, so
  \<open>needs_computation\<close> is false from then on. The selector does not read the latch:
  what \<open>query_extra_data\<close> returns is the same with the latch set or not.
\<close>

theorem bounded_retries:
  assumes r: "map_of (subtasks_given t) sid = Some r"
  shows "map_of (number_of_failed_subtask_tries (snd (computation_failed t sid))) (subtask_num r) =
           Some (failure_count t (subtask_num r) + 1) \<and>
         (\<forall>n. n \<noteq> subtask_num r \<longrightarrow>
            map_of (number_of_failed_subtask_tries (snd (computation_failed t sid))) n =
            map_of (number_of_failed_subtask_tries t) n) \<and>
         should_retry_failed_subtask (snd (computation_failed t sid)) sid =
           Inr (failure_count t (subtask_num r) + 1 < 2) \<and>
         (subtask_exceeded_max_retries_after_fail (snd (computation_failed t sid)) \<longleftrightarrow>
            subtask_exceeded_max_retries_after_fail t \<or> \<not> failure_count t (subtask_num r) + 1 < 2) \<and>
         (subtask_exceeded_max_retries_after_fail (snd (computation_failed t sid)) \<longrightarrow>
            (\<forall>cs.
               subtask_exceeded_max_retries_after_fail (run (snd (computation_failed t sid)) cs) \<and>
               \<not> needs_computation (run (snd (computation_failed t sid)) cs))) \<and>
         (\<forall>u sid' nid.
            fst (query_extra_data (u\<lparr>subtask_exceeded_max_retries_after_fail := True\<rparr>) sid' nid) =
            fst (query_extra_data u sid' nid))"
proof (intro conjI allI impI)
  show "map_of (number_of_failed_subtask_tries (snd (computation_failed t sid))) (subtask_num r) =
           Some (failure_count t (subtask_num r) + 1)"
    by (simp add: computation_failed_tries[OF r])
next
  fix n assume "n \<noteq> subtask_num r"
  then show "map_of (number_of_failed_subtask_tries (snd (computation_failed t sid))) n =
            map_of (number_of_failed_subtask_tries t) n"
    by (simp add: computation_failed_tries[OF r])
next
  from computation_failed_keeps_num[OF r] obtain r' where
    r': "map_of (subtasks_given (snd (computation_failed t sid))) sid = Some r'"
        "subtask_num r' = subtask_num r"
    by blast
  then show "should_retry_failed_subtask (snd (computation_failed t sid)) sid =
           Inr (failure_count t (subtask_num r) + 1 < 2)"
    by (simp add: should_retry_failed_subtask_def get_subtask_number_from_id_def
        computation_failed_tries[OF r] MAX_SUBTASK_RETRIES_AFTER_FAIL_def)
next
  show "subtask_exceeded_max_retries_after_fail (snd (computation_failed t sid)) \<longleftrightarrow>
            subtask_exceeded_max_retries_after_fail t \<or> \<not> failure_count t (subtask_num r) + 1 < 2"
    using computation_failed_latch_iff[OF r] by (simp add: MAX_SUBTASK_RETRIES_AFTER_FAIL_def)
next
  fix cs
  assume l: "subtask_exceeded_max_retries_after_fail (snd (computation_failed t sid))"
  from latched_forever[OF l]
  show "subtask_exceeded_max_retries_after_fail (run (snd (computation_failed t sid)) cs)"
    and "\<not> needs_computation (run (snd (computation_failed t sid)) cs)"
    by blast+
next
  fix u sid' nid
  show "fst (query_extra_data (u\<lparr>subtask_exceeded_max_retries_after_fail := True\<rparr>) sid' nid) =
        fst (query_extra_data u sid' nid)"
    by (simp add: query_extra_data_latch)
qed

theorem bounded_retries_witness:
  "map_of (subtasks_given once_failed_task) ''b'' =
     Some \<lparr>subtask_id = ''b'', subtask_num = 0, node_id = None, status = starting\<rparr> \<and>
   map_of (number_of_failed_subtask_tries once_failed_task) 0 = Some 1 \<and>
   map_of (number_of_failed_subtask_tries (snd (computation_failed once_failed_task ''b''))) 0 = Some 2 \<and>
   should_retry_failed_subtask (snd (computation_failed once_failed_task ''b'')) ''b'' = Inr False \<and>
   subtask_exceeded_max_retries_after_fail (snd (computation_failed once_failed_task ''b'')) \<and>
   \<not> needs_computation (run (snd (computation_failed once_failed_task ''b''))
        [AcceptResults ''b'' [''r0''], ComputationFailed ''a'', QueryExtraData ''c'' None])"
proof -
  let ?t' = "snd (computation_failed once_failed_task ''b'')"
  have h: "map_of (subtasks_given once_failed_task) ''b'' =
     Some \<lparr>subtask_id = ''b'', subtask_num = 0, node_id = None, status = starting\<rparr>"
    by code_simp
  have c: "failure_count once_failed_task 0 = 1"
    by code_simp
  have c': "map_of (number_of_failed_subtask_tries once_failed_task) 0 = Some 1"
    by code_simp
  note b = bounded_retries[OF h, simplified, unfolded c]
  from b have a1: "map_of (number_of_failed_subtask_tries ?t') 0 = Some 2"
    by simp
  from b have a3: "should_retry_failed_subtask ?t' ''b'' = Inr False"
    by simp
  from b have a4: "subtask_exceeded_max_retries_after_fail ?t'"
    by simp
  from b a4 have a5: "\<forall>cs. subtask_exceeded_max_retries_after_fail (run ?t' cs) \<and>
               \<not> needs_computation (run ?t' cs)"
    by blast
  from a5 have a6: "\<not> needs_computation (run ?t'
      [AcceptResults ''b'' [''r0''], ComputationFailed ''a'', QueryExtraData ''c'' None])"
    by blast
  from h c' a1 a3 a4 a6 show ?thesis by blast
qed

text \<open>
  C4 as stated fails: in the task below chunk 0 has failed twice, the latch is set and
  \<open>needs_computation\<close> is false; \<open>query_extra_data\<close> called then hands out chunk 0
  again, as subtask \<open>c\<close>.
\<close>

theorem dispatch_after_latch:
  "map_of (number_of_failed_subtask_tries early_latch_task) 0 = Some 2 \<and>
   subtask_exceeded_max_retries_after_fail early_latch_task \<and>
   \<not> needs_computation early_latch_task \<and>
   fst (query_extra_data early_latch_task ''c'' None) = Inr (''c'', 0, ''c0'')"
  by code_simp

section \<open>C2: a failed subtask is sent again before a new chunk is started\<close>

text \<open>
  C2, as the code has it: when some recorded subtask has status \<open>failure\<close> or
  \<open>restarted\<close>, \<open>_get_next_subtask\<close> takes the first such entry in the iteration
  order of \<open>subtasks_given\<close> (the order in which the dispatches were recorded), sets
  its status to \<open>resent\<close>, takes one off \<open>num_failed_subtasks\<close>, returns the chunk
  number of that entry, and leaves the cursor \<open>last_task\<close> where it was.
\<close>

theorem retry_first_selection:
  assumes d: "distinct (map fst (subtasks_given t))"
    and ex: "\<exists>kr \<in> set (subtasks_given t). status (snd kr) \<in> {failure, restarted}"
  shows "\<exists>i < length (subtasks_given t).
           status (snd (subtasks_given t ! i)) \<in> {failure, restarted} \<and>
           (\<forall>j < i. status (snd (subtasks_given t ! j)) \<notin> {failure, restarted}) \<and>
           get_next_subtask t =
             (Inr (subtask_num (snd (subtasks_given t ! i))),
              t\<lparr>subtasks_given := (subtasks_given t)
                   [i := (fst (subtasks_given t ! i), (snd (subtasks_given t ! i))\<lparr>status := resent\<rparr>)],
                num_failed_subtasks := num_failed_subtasks t - 1\<rparr>)"
proof -
  from ex obtain kr where "kr \<in> set (subtasks_given t)" and "needs_resend kr"
    by (auto simp: needs_resend_def)
  then have "find needs_resend (subtasks_given t) \<noteq> None"
    unfolding find_None_iff by blast
  then obtain k r where f: "find needs_resend (subtasks_given t) = Some (k, r)"
    by (cases "find needs_resend (subtasks_given t)") auto
  then obtain i where i: "i < length (subtasks_given t)" and p: "needs_resend (subtasks_given t ! i)"
    and kr: "(k, r) = subtasks_given t ! i" and first: "\<forall>j < i. \<not> needs_resend (subtasks_given t ! j)"
    unfolding find_Some_iff by blast
  from kr have k: "k = fst (subtasks_given t ! i)" and r: "r = snd (subtasks_given t ! i)"
    by (metis fst_conv, metis snd_conv)
  have "get_next_subtask t =
          (Inr (subtask_num r),
           t\<lparr>subtasks_given := AList.update k (r\<lparr>status := resent\<rparr>) (subtasks_given t),
             num_failed_subtasks := num_failed_subtasks t - 1\<rparr>)"
    using f by (simp add: get_next_subtask_def)
  with alist_update_nth[OF d i, of "r\<lparr>status := resent\<rparr>"] k r i p first
  show ?thesis
    by (auto simp: needs_resend_def)
qed

theorem retry_first_selection_witness:
  "distinct (map fst (subtasks_given out_of_order_task)) \<and>
   map (status \<circ> snd) (subtasks_given out_of_order_task) = [resent, failure, failure] \<and>
   get_next_subtask out_of_order_task =
     (Inr 1,
      out_of_order_task\<lparr>subtasks_given := (subtasks_given out_of_order_task)
          [1 := (''b'', \<lparr>subtask_id = ''b'', subtask_num = 1, node_id = None, status = resent\<rparr>)],
        num_failed_subtasks := 1\<rparr>)"
proof -
  have d: "distinct (map fst (subtasks_given out_of_order_task))"
    by code_simp
  have m: "map (status \<circ> snd) (subtasks_given out_of_order_task) = [resent, failure, failure]"
    by code_simp
  have e: "\<exists>kr \<in> set (subtasks_given out_of_order_task). status (snd kr) \<in> {failure, restarted}"
    by code_simp
  from retry_first_selection[OF d e] obtain i where
    i: "i < length (subtasks_given out_of_order_task)"
    and f: "status (snd (subtasks_given out_of_order_task ! i)) \<in> {failure, restarted}"
    and first: "\<forall>j < i. status (snd (subtasks_given out_of_order_task ! j)) \<notin> {failure, restarted}"
    and g: "get_next_subtask out_of_order_task =
             (Inr (subtask_num (snd (subtasks_given out_of_order_task ! i))),
              out_of_order_task\<lparr>subtasks_given := (subtasks_given out_of_order_task)
                   [i := (fst (subtasks_given out_of_order_task ! i),
                          (snd (subtasks_given out_of_order_task ! i))\<lparr>status := resent\<rparr>)],
                num_failed_subtasks := num_failed_subtasks out_of_order_task - 1\<rparr>)"
    by blast
  have l: "length (subtasks_given out_of_order_task) = 3"
    using m by (metis length_map length_Cons list.size(3) numeral_3_eq_3)
  have s0: "status (snd (subtasks_given out_of_order_task ! 0)) = resent"
    and s1: "status (snd (subtasks_given out_of_order_task ! 1)) = failure"
    by code_simp+
  have "i = 1"
  proof -
    have "i \<noteq> 0"
    proof
      assume "i = 0"
      with f s0 show False by simp
    qed
    moreover from first s1 have "\<not> 1 < i" by auto
    ultimately show ?thesis by simp
  qed
  moreover have "subtasks_given out_of_order_task ! 1 =
      (''b'', \<lparr>subtask_id = ''b'', subtask_num = 1, node_id = None, status = failure\<rparr>)"
    by code_simp
  moreover have "num_failed_subtasks out_of_order_task = 2"
    by code_simp
  ultimately show ?thesis using g d m by simp
qed

text \<open>
  C2 as stated fails: in the task below the entries \<open>b\<close> (chunk 1) and \<open>c\<close>
  (chunk 0) both have status \<open>failure\<close>; \<open>b\<close> was recorded first, and the selector
  returns chunk 1, not chunk 0, the first by index.
\<close>

theorem retry_order_is_registry_order:
  "subtasks_given out_of_order_task =
     [(''a'', \<lparr>subtask_id = ''a'', subtask_num = 0, node_id = None, status = resent\<rparr>),
      (''b'', \<lparr>subtask_id = ''b'', subtask_num = 1, node_id = None, status = failure\<rparr>),
      (''c'', \<lparr>subtask_id = ''c'', subtask_num = 0, node_id = None, status = failure\<rparr>)] \<and>
   fst (get_next_subtask out_of_order_task) = Inr 1"
  by code_simp

section \<open>C5: when the task counts as finished\<close>

text \<open>
  C5, as the code has it: once the latch is set, \<open>finished_computation\<close> is true
  exactly when every entry of \<open>subtasks_given\<close> (every dispatch that was recorded) has
  one of the statuses \<open>finished\<close>, \<open>failure\<close>, \<open>timeout\<close>, \<open>cancelled\<close>,
  \<open>resent\<close>; a chunk that was never dispatched has no entry and does not count. While
  the latch is not set, the criterion of the base class decides.
\<close>

theorem partial_termination_predicate: "finished_computation t =
   (if subtask_exceeded_max_retries_after_fail t
    then (\<forall>kr \<in> set (subtasks_given t). status (snd kr) \<in> {finished, failure, timeout, cancelled, resent})
    else base_finished_computation t)"
  by (auto simp: finished_computation_def all_subtasks_have_ended_status_def filter_all is_subtask_ended_def)

theorem partial_termination_predicate_witness:
  "subtask_exceeded_max_retries_after_fail early_latch_task \<and>
   map (status \<circ> snd) (subtasks_given early_latch_task) = [resent, failure] \<and>
   finished_computation early_latch_task \<and>
   \<not> subtask_exceeded_max_retries_after_fail once_failed_task \<and>
   map (status \<circ> snd) (subtasks_given once_failed_task) = [resent, starting] \<and>
   \<not> finished_computation once_failed_task"
proof -
  have l: "subtask_exceeded_max_retries_after_fail early_latch_task"
    and m: "map (status \<circ> snd) (subtasks_given early_latch_task) = [resent, failure]"
    and a: "\<forall>kr \<in> set (subtasks_given early_latch_task).
              status (snd kr) \<in> {finished, failure, timeout, cancelled, resent}"
    and l': "\<not> subtask_exceeded_max_retries_after_fail once_failed_task"
    and m': "map (status \<circ> snd) (subtasks_given once_failed_task) = [resent, starting]"
    and b: "\<not> base_finished_computation once_failed_task"
    by code_simp+
  from partial_termination_predicate[of early_latch_task] l a
  have "finished_computation early_latch_task" by simp
  moreover from partial_termination_predicate[of once_failed_task] l' b
  have "\<not> finished_computation once_failed_task" by simp
  ultimately show ?thesis using l m l' m' by simp
qed

text \<open>
  C5 as stated fails: in the two-chunk task below only chunk 0 was ever dispatched
  (\<open>last_task\<close> is 1, both entries are of chunk 0); chunk 1 has reached no status at
  all, and \<open>finished_computation\<close> is true.
\<close>

theorem finished_with_undispatched_chunk:
  "subtask_exceeded_max_retries_after_fail early_latch_task \<and>
   total_tasks early_latch_task = 2 \<and> last_task early_latch_task = 1 \<and>
   subtasks_given early_latch_task =
     [(''a'', \<lparr>subtask_id = ''a'', subtask_num = 0, node_id = None, status = resent\<rparr>),
      (''b'', \<lparr>subtask_id = ''b'', subtask_num = 0, node_id = None, status = failure\<rparr>)] \<and>
   finished_computation early_latch_task"
  by code_simp

section \<open>C9: the output path\<close>

text \<open>
  C9, at a configuration that gives an output path and neither a container nor a file
  name: \<open>get_output_path\<close> formats the whole presets dictionary into the file name,
  not the container it holds.
\<close>

theorem default_container_is_presets_dict:
  "get_output_path every_file_exists default_container_dictionary clip_definition =
     Inr ''/out/clip.{'container': 'mp4'}''"
  by code_simp

section \<open>Auxiliary facts about accepting results\<close>

lemma accept_results_known:
  assumes "map_of (subtasks_given t) sid = Some r" and "status r = starting"
  shows "accept_results t sid fs =
     (let t3 = t\<lparr>subtasks_given := AList.update sid (r\<lparr>status := finished\<rparr>) (subtasks_given t),
                  collected_files := collected_files t @ fs,
                  num_tasks_received := num_tasks_received t + 1\<rparr>
      in if num_tasks_received t + 1 = total_tasks t
         then (case merge_video t3 of (Inl e, t4) \<Rightarrow> (Inl e, t4) | (Inr _, t4) \<Rightarrow> (Inr (), t4))
         else (Inr (), t3))"
  using assms
  by (simp add: accept_results_def base_accept_results_def collect_results_def Let_def)

lemma accept_results_unknown:
  assumes "map_of (subtasks_given t) sid = None \<or>
           (\<exists>r. map_of (subtasks_given t) sid = Some r \<and> status r \<noteq> starting)"
  shows "accept_results t sid fs = (Inl UnknownDispatch, t)"
  using assms
  by (auto simp: accept_results_def base_accept_results_def)

lemma accept_results_merge_step:
  "total_tasks (snd (accept_results t sid fs)) = total_tasks t \<and>
   num_tasks_received t \<le> num_tasks_received (snd (accept_results t sid fs)) \<and>
   (merge_count (snd (accept_results t sid fs)) = merge_count t \<or>
    merge_count (snd (accept_results t sid fs)) = merge_count t + 1 \<and>
    num_tasks_received t + 1 = total_tasks t \<and>
    num_tasks_received (snd (accept_results t sid fs)) = num_tasks_received t + 1)"
proof (cases "map_of (subtasks_given t) sid")
  case None
  then show ?thesis by (simp add: accept_results_unknown)
next
  case (Some r)
  show ?thesis
  proof (cases "status r = starting")
    case True
    show ?thesis
      unfolding accept_results_known[OF Some True]
      by (simp add: Let_def merge_video_def merge_count_def)
  next
    case False
    with Some show ?thesis by (simp add: accept_results_unknown)
  qed
qed

lemma step_merge_inv: "merge_inv t \<Longrightarrow> merge_inv (step t c)"
proof (cases c)
  case (QueryExtraData sid nid)
  assume "merge_inv t"
  with QueryExtraData show ?thesis
    by (simp add: merge_inv_def merge_count_def query_extra_data_fields)
next
  case (AcceptResults sid fs)
  assume "merge_inv t"
  with AcceptResults accept_results_merge_step[of t sid fs] show ?thesis
    by (auto simp: merge_inv_def)
next
  case (ComputationFailed sid)
  assume "merge_inv t"
  with ComputationFailed show ?thesis
    by (simp add: merge_inv_def merge_count_def computation_failed_fields)
qed

lemma run_merge_inv: "merge_inv t \<Longrightarrow> merge_inv (run t cs)"
  unfolding run_def by (induction cs arbitrary: t) (simp_all add: step_merge_inv)

lemma new_task_merge_inv: "merge_inv (new_task cs rs out)"
  by (simp add: merge_inv_def merge_count_def new_task_def)

section \<open>C10: the merge needs exactly one input resource\<close>

text \<open>
  C10: when \<open>task_definition.resources\<close> does not have exactly one element,
  \<open>_merge_video\<close> stops at its assertion: it raises \<open>AssertionError\<close> after the
  clean-up of the intermediate videos and before the merger runs, the output directory
  is made or the output is moved. So \<open>accept_results\<close> never adds an effect that
  produces or relocates output, and on the result that completes the count it raises
  \<open>AssertionError\<close>. With exactly one resource the merger runs; the merged file is then
  delivered when the output file has a directory part, and otherwise making the
  directory fails and nothing is moved.
\<close>

theorem merge_requires_single_resource:
  "(length (resources t) \<noteq> 1 \<longrightarrow>
      merge_video t =
        (Inl AssertionError,
         t\<lparr>effects := effects t @ [RemoveIntermediateVideos (resources_dir t)]\<rparr>) \<and>
      filter produces_output (effects (snd (accept_results t sid fs))) =
        filter produces_output (effects t) \<and>
      (map_of (subtasks_given t) sid = Some r \<and> status r = starting \<and>
       num_tasks_received t + 1 = total_tasks t \<longrightarrow>
         fst (accept_results t sid fs) = Inl AssertionError)) \<and>
   (length (resources t) = 1 \<and> dirname (output_file t) \<noteq> [] \<longrightarrow>
      merge_video t =
        (Inr True,
         t\<lparr>effects := effects t @
            [RemoveIntermediateVideos (resources_dir t),
             MergeAndReplaceVideoStreams (hd (resources t)) (collected_files t)
               (basename (output_file t)) (task_dir t),
             MakeDirs (dirname (output_file t)),
             MoveMergedOutput (output_file t)]\<rparr>)) \<and>
   (length (resources t) = 1 \<and> dirname (output_file t) = [] \<longrightarrow>
      merge_video t =
        (Inl FileNotFoundError,
         t\<lparr>effects := effects t @
            [RemoveIntermediateVideos (resources_dir t),
             MergeAndReplaceVideoStreams (hd (resources t)) (collected_files t)
               (basename (output_file t)) (task_dir t)]\<rparr>))"
proof (intro conjI impI)
  assume n: "length (resources t) \<noteq> 1"
  then show "merge_video t =
        (Inl AssertionError,
         t\<lparr>effects := effects t @ [RemoveIntermediateVideos (resources_dir t)]\<rparr>)"
    by (simp add: merge_video_def)
  show "filter produces_output (effects (snd (accept_results t sid fs))) =
        filter produces_output (effects t)"
  proof (cases "\<exists>r. map_of (subtasks_given t) sid = Some r \<and> status r = starting")
    case True
    then obtain r where "map_of (subtasks_given t) sid = Some r" "status r = starting"
      by blast
    from accept_results_known[OF this] n show ?thesis
      by (simp add: Let_def merge_video_def)
  next
    case False
    then have "accept_results t sid fs = (Inl UnknownDispatch, t)"
      by (intro accept_results_unknown) (cases "map_of (subtasks_given t) sid", auto)
    then show ?thesis by simp
  qed
next
  assume n: "length (resources t) \<noteq> 1"
    and "map_of (subtasks_given t) sid = Some r \<and> status r = starting \<and>
         num_tasks_received t + 1 = total_tasks t"
  then have r: "map_of (subtasks_given t) sid = Some r" and s: "status r = starting"
    and c: "num_tasks_received t + 1 = total_tasks t"
    by simp_all
  from accept_results_known[OF r s] n c show "fst (accept_results t sid fs) = Inl AssertionError"
    by (simp add: Let_def merge_video_def)
next
  assume "length (resources t) = 1 \<and> dirname (output_file t) \<noteq> []"
  then show "merge_video t =
        (Inr True,
         t\<lparr>effects := effects t @
            [RemoveIntermediateVideos (resources_dir t),
             MergeAndReplaceVideoStreams (hd (resources t)) (collected_files t)
               (basename (output_file t)) (task_dir t),
             MakeDirs (dirname (output_file t)),
             MoveMergedOutput (output_file t)]\<rparr>)"
    by (simp add: merge_video_def Let_def)
next
  assume "length (resources t) = 1 \<and> dirname (output_file t) = []"
  then show "merge_video t =
        (Inl FileNotFoundError,
         t\<lparr>effects := effects t @
            [RemoveIntermediateVideos (resources_dir t),
             MergeAndReplaceVideoStreams (hd (resources t)) (collected_files t)
               (basename (output_file t)) (task_dir t)]\<rparr>)"
    by (simp add: merge_video_def Let_def)
qed

theorem merge_requires_single_resource_witness:
  "length (resources two_inputs_task) = 2 \<and>
   map_of (subtasks_given two_inputs_task) ''a'' =
     Some \<lparr>subtask_id = ''a'', subtask_num = 0, node_id = None, status = starting\<rparr> \<and>
   num_tasks_received two_inputs_task + 1 = total_tasks two_inputs_task \<and>
   fst (accept_results two_inputs_task ''a'' [''r0'']) = Inl AssertionError \<and>
   filter produces_output (effects (snd (accept_results two_inputs_task ''a'' [''r0'']))) = [] \<and>
   length (resources demo_task) = 1 \<and>
   dirname (output_file demo_task) = ''out'' \<and>
   fst (merge_video demo_task) = Inr True \<and>
   length (resources bare_output_task) = 1 \<and>
   dirname (output_file bare_output_task) = [] \<and>
   fst (merge_video bare_output_task) = Inl FileNotFoundError"
proof -
  have l: "length (resources two_inputs_task) = 2"
    and h: "map_of (subtasks_given two_inputs_task) ''a'' =
     Some \<lparr>subtask_id = ''a'', subtask_num = 0, node_id = None, status = starting\<rparr>"
    and c: "num_tasks_received two_inputs_task + 1 = total_tasks two_inputs_task"
    and e: "effects two_inputs_task = []"
    and l': "length (resources demo_task) = 1"
    and o': "dirname (output_file demo_task) = ''out''"
    and l'': "length (resources bare_output_task) = 1"
    and o'': "dirname (output_file bare_output_task) = []"
    by code_simp+
  note w = merge_requires_single_resource[of two_inputs_task "''a''" "[''r0'']"
      "\<lparr>subtask_id = ''a'', subtask_num = 0, node_id = None, status = starting\<rparr>"]
  from w l h c have a: "fst (accept_results two_inputs_task ''a'' [''r0'']) = Inl AssertionError"
    by simp
  from w l e have b: "filter produces_output (effects (snd (accept_results two_inputs_task ''a'' [''r0'']))) = []"
    by simp
  from merge_requires_single_resource[of demo_task] l' o'
  have d: "fst (merge_video demo_task) = Inr True"
    by simp
  from merge_requires_single_resource[of bare_output_task] l'' o''
  have f: "fst (merge_video bare_output_task) = Inl FileNotFoundError"
    by simp
  from l h c a b l' o' d l'' o'' f show ?thesis by blast
qed

section \<open>C1: the merge and the partial-failure termination\<close>

text \<open>
  C1, as the code has it: the merge step is reached only inside \<open>accept_results\<close>,
  and only by the result that brings the received count to the total. A failure
  notification never runs it, nor does a dispatch: \<open>computation_failed\<close> and
  \<open>query_extra_data\<close> leave the effects of the task untouched, also when the failure
  sets the latch and ends the last open subtask.
\<close>

theorem merge_only_in_accept_results:
  "effects (snd (computation_failed t sid)) = effects t \<and>
   effects (snd (query_extra_data t sid nid)) = effects t \<and>
   (effects (snd (accept_results t sid fs)) \<noteq> effects t \<longrightarrow>
      num_tasks_received t + 1 = total_tasks t)"
proof (intro conjI impI)
  show "effects (snd (computation_failed t sid)) = effects t"
    by (simp add: computation_failed_fields)
  show "effects (snd (query_extra_data t sid nid)) = effects t"
    by (simp add: query_extra_data_fields)
next
  assume a: "effects (snd (accept_results t sid fs)) \<noteq> effects t"
  show "num_tasks_received t + 1 = total_tasks t"
  proof (cases "\<exists>r. map_of (subtasks_given t) sid = Some r \<and> status r = starting")
    case True
    then obtain r where "map_of (subtasks_given t) sid = Some r" "status r = starting"
      by blast
    from accept_results_known[OF this] a show ?thesis
      by (auto simp: Let_def split: if_splits)
  next
    case False
    then have "accept_results t sid fs = (Inl UnknownDispatch, t)"
      by (intro accept_results_unknown) (cases "map_of (subtasks_given t) sid", auto)
    with a show ?thesis by simp
  qed
qed

theorem merge_only_in_accept_results_witness:
  "effects (snd (accept_results last_result_pending_task ''b'' [''r1''])) \<noteq>
     effects last_result_pending_task \<and>
   num_tasks_received last_result_pending_task + 1 = total_tasks last_result_pending_task"
proof -
  have h: "effects (snd (accept_results last_result_pending_task ''b'' [''r1''])) \<noteq>
     effects last_result_pending_task"
    by code_simp
  from merge_only_in_accept_results[of last_result_pending_task "''b''" _ "[''r1'']"] h
  show ?thesis by blast
qed

text \<open>
  C1 as stated fails: chunk 0 of the two-chunk task has succeeded, chunk 1 has failed
  twice. The latch is set, every recorded subtask has an ended status and
  \<open>finished_computation\<close> is true, one result file is collected, and the task has had
  no effect on the world: the merge was not invoked.
\<close>

theorem partial_termination_without_merge:
  "subtask_exceeded_max_retries_after_fail partial_failure_task \<and>
   map (status \<circ> snd) (subtasks_given partial_failure_task) = [finished, resent, failure] \<and>
   all_subtasks_have_ended_status partial_failure_task \<and>
   finished_computation partial_failure_task \<and>
   collected_files partial_failure_task = [''r0''] \<and>
   effects partial_failure_task = []"
  by code_simp

section \<open>C6: the merge after the last result\<close>

text \<open>
  C6, as the code has it: over any sequence of calls on a new task the merger is invoked
  at most once. The success notification that brings the received count to N (for an
  outstanding dispatch, with one input resource and an output file that has a directory
  part) invokes it, and hands it the collected result files in the order in which the
  results were accepted, this result's files last; that order is the order of arrival,
  not of chunk index.
\<close>

theorem merge_at_most_once_arrival_order:
  "merge_count (run (new_task cs rs out) calls) \<le> 1 \<and>
   (map_of (subtasks_given t) sid = Some r \<and> status r = starting \<and>
    num_tasks_received t + 1 = total_tasks t \<and> length (resources t) = 1 \<and>
    dirname (output_file t) \<noteq> [] \<longrightarrow>
      fst (accept_results t sid fs) = Inr () \<and>
      num_tasks_received (snd (accept_results t sid fs)) = total_tasks t \<and>
      effects (snd (accept_results t sid fs)) =
        effects t @
          [RemoveIntermediateVideos (resources_dir t),
           MergeAndReplaceVideoStreams (hd (resources t)) (collected_files t @ fs)
             (basename (output_file t)) (task_dir t),
           MakeDirs (dirname (output_file t)),
           MoveMergedOutput (output_file t)])"
proof (intro conjI impI)
  from run_merge_inv[OF new_task_merge_inv]
  show "merge_count (run (new_task cs rs out) calls) \<le> 1"
    by (simp add: merge_inv_def)
next
  assume "map_of (subtasks_given t) sid = Some r \<and> status r = starting \<and>
    num_tasks_received t + 1 = total_tasks t \<and> length (resources t) = 1 \<and>
    dirname (output_file t) \<noteq> []"
  then have r: "map_of (subtasks_given t) sid = Some r" and s: "status r = starting"
    and c: "num_tasks_received t + 1 = total_tasks t" and l: "length (resources t) = 1"
    and o: "dirname (output_file t) \<noteq> []"
    by simp_all
  note k = accept_results_known[OF r s, of fs]
  from k c l o show "fst (accept_results t sid fs) = Inr ()"
    by (simp add: Let_def merge_video_def)
  from k c l o show "num_tasks_received (snd (accept_results t sid fs)) = total_tasks t"
    by (simp add: Let_def merge_video_def)
  from k c l o show "effects (snd (accept_results t sid fs)) =
        effects t @
          [RemoveIntermediateVideos (resources_dir t),
           MergeAndReplaceVideoStreams (hd (resources t)) (collected_files t @ fs)
             (basename (output_file t)) (task_dir t),
           MakeDirs (dirname (output_file t)),
           MoveMergedOutput (output_file t)]"
    by (simp add: Let_def merge_video_def)
qed

theorem merge_at_most_once_arrival_order_witness:
  "map_of (subtasks_given last_result_pending_task) ''b'' =
     Some \<lparr>subtask_id = ''b'', subtask_num = 1, node_id = None, status = starting\<rparr> \<and>
   num_tasks_received last_result_pending_task + 1 = total_tasks last_result_pending_task \<and>
   length (resources last_result_pending_task) = 1 \<and>
   dirname (output_file last_result_pending_task) = ''out'' \<and>
   fst (accept_results last_result_pending_task ''b'' [''r1'']) = Inr () \<and>
   effects (snd (accept_results last_result_pending_task ''b'' [''r1''])) =
     [RemoveIntermediateVideos [],
      MergeAndReplaceVideoStreams ''in.mp4'' [''r0'', ''r1''] ''final.mp4'' [],
      MakeDirs ''out'', MoveMergedOutput ''out/final.mp4''] \<and>
   merge_count (run demo_task
     [QueryExtraData ''a'' None, QueryExtraData ''b'' None, AcceptResults ''a'' [''r0''],
      AcceptResults ''b'' [''r1''], AcceptResults ''b'' [''r1''], AcceptResults ''a'' [''r0'']]) \<le> 1"
proof -
  have h: "map_of (subtasks_given last_result_pending_task) ''b'' =
     Some \<lparr>subtask_id = ''b'', subtask_num = 1, node_id = None, status = starting\<rparr>"
    and c: "num_tasks_received last_result_pending_task + 1 = total_tasks last_result_pending_task"
    and l: "length (resources last_result_pending_task) = 1"
    and o: "dirname (output_file last_result_pending_task) = ''out''"
    by code_simp+
  have v: "effects last_result_pending_task = []"
    "resources_dir last_result_pending_task = []"
    "hd (resources last_result_pending_task) = ''in.mp4''"
    "collected_files last_result_pending_task = [''r0'']"
    "basename ''out/final.mp4'' = ''final.mp4''"
    "task_dir last_result_pending_task = []"
    "dirname ''out/final.mp4'' = ''out''"
    "output_file last_result_pending_task = ''out/final.mp4''"
    by code_simp+
  note w = merge_at_most_once_arrival_order[of "[''c0'', ''c1'']" "[''in.mp4'']" "''out/final.mp4''"
      "[QueryExtraData ''a'' None, QueryExtraData ''b'' None, AcceptResults ''a'' [''r0''],
        AcceptResults ''b'' [''r1''], AcceptResults ''b'' [''r1''], AcceptResults ''a'' [''r0'']]"
      last_result_pending_task "''b''"
      "\<lparr>subtask_id = ''b'', subtask_num = 1, node_id = None, status = starting\<rparr>" "[''r1'']"]
  from w h c l o have a: "fst (accept_results last_result_pending_task ''b'' [''r1'']) = Inr ()"
    by simp
  from w h c l o have b: "effects (snd (accept_results last_result_pending_task ''b'' [''r1''])) =
     [RemoveIntermediateVideos [],
      MergeAndReplaceVideoStreams ''in.mp4'' [''r0'', ''r1''] ''final.mp4'' [],
      MakeDirs ''out'', MoveMergedOutput ''out/final.mp4'']"
    by (simp add: v)
  from w have m: "merge_count (run demo_task
     [QueryExtraData ''a'' None, QueryExtraData ''b'' None, AcceptResults ''a'' [''r0''],
      AcceptResults ''b'' [''r1''], AcceptResults ''b'' [''r1''], AcceptResults ''a'' [''r0'']]) \<le> 1"
    by (simp add: demo_task_def)
  from h c l o a b m show ?thesis by blast
qed

text \<open>
  C6 as stated fails: the result of chunk 1 (subtask \<open>b\<close>) is accepted before the
  result of chunk 0 (subtask \<open>a\<close>), and the merger receives the file of chunk 1 first.
\<close>

theorem merge_in_arrival_order:
  "map (subtask_num \<circ> snd) (subtasks_given swapped_results_task) = [0, 1] \<and>
   map fst (subtasks_given swapped_results_task) = [''a'', ''b''] \<and>
   effects swapped_results_task =
     [RemoveIntermediateVideos [],
      MergeAndReplaceVideoStreams ''in.mp4'' [''r1'', ''r0''] ''final.mp4'' [],
      MakeDirs ''out'', MoveMergedOutput ''out/final.mp4'']"
  by code_simp

section \<open>Auxiliary facts about the registry\<close>

lemma closed_mapD:
  "closed_map n m \<Longrightarrow> m k = Some r \<Longrightarrow> subtask_num r = n \<Longrightarrow>
   status r = finished \<or> status r = resent"
  unfolding closed_map_def by blast

lemma closed_map_num:
  assumes "closed_map n m" and "m k = Some r" and "status r = failure \<or> status r = restarted"
  shows "subtask_num r \<noteq> n"
proof
  assume "subtask_num r = n"
  from closed_mapD[OF assms(1,2) this] assms(3) show False by auto
qed

lemma closed_map_status:
  assumes c: "closed_map n m" and m: "m k = Some r"
    and s: "s = finished \<or> s = resent \<or> status r = starting"
  shows "closed_map n (m(k \<mapsto> r\<lparr>status := s\<rparr>))"
  unfolding closed_map_def
proof (intro allI impI)
  fix k' r'
  assume a: "(m(k \<mapsto> r\<lparr>status := s\<rparr>)) k' = Some r' \<and> subtask_num r' = n"
  show "status r' = finished \<or> status r' = resent"
  proof (cases "k' = k")
    case True
    with a have r': "r' = r\<lparr>status := s\<rparr>" and n: "subtask_num r = n" by auto
    show ?thesis
    proof (cases "s = finished \<or> s = resent")
      case True
      with r' show ?thesis by auto
    next
      case False
      with s have "status r = starting" by simp
      with closed_mapD[OF c m n] show ?thesis by auto
    qed
  next
    case False
    with a have "m k' = Some r'" and "subtask_num r' = n" by auto
    from closed_mapD[OF c this] show ?thesis .
  qed
qed

lemma closed_map_store:
  assumes c: "closed_map n m" and s: "subtask_num st \<noteq> n"
  shows "closed_map n (m(k \<mapsto> st))"
  unfolding closed_map_def
proof (intro allI impI)
  fix k' r'
  assume a: "(m(k \<mapsto> st)) k' = Some r' \<and> subtask_num r' = n"
  with s have "k' \<noteq> k" by auto
  with a have "m k' = Some r'" and "subtask_num r' = n" by auto
  from closed_mapD[OF c this] show "status r' = finished \<or> status r' = resent" .
qed

lemma open_uniqueD:
  "open_unique m \<Longrightarrow> m k = Some r \<Longrightarrow> m k' = Some r' \<Longrightarrow> subtask_num r = subtask_num r' \<Longrightarrow>
   status r \<noteq> resent \<Longrightarrow> status r' \<noteq> resent \<Longrightarrow> k = k'"
  unfolding open_unique_def by blast

lemma open_unique_store:
  assumes u: "open_unique m"
    and o: "\<And>k' r'. status st \<noteq> resent \<Longrightarrow> k' \<noteq> k \<Longrightarrow> m k' = Some r' \<Longrightarrow>
              subtask_num r' = subtask_num st \<Longrightarrow> status r' = resent"
  shows "open_unique (m(k \<mapsto> st))"
  unfolding open_unique_def
proof (intro allI impI)
  fix a b ra rb
  assume h: "(m(k \<mapsto> st)) a = Some ra \<and> (m(k \<mapsto> st)) b = Some rb \<and>
     subtask_num ra = subtask_num rb \<and> status ra \<noteq> resent \<and> status rb \<noteq> resent"
  show "a = b"
  proof (cases "a = k")
    case ak: True
    show ?thesis
    proof (cases "b = k")
      case True
      with ak show ?thesis by simp
    next
      case False
      with h ak have "status st \<noteq> resent" and "m b = Some rb"
        and "subtask_num rb = subtask_num st" and "status rb \<noteq> resent"
        by auto
      with o[OF _ False] show ?thesis by blast
    qed
  next
    case ak: False
    show ?thesis
    proof (cases "b = k")
      case True
      with h ak have "status st \<noteq> resent" and "m a = Some ra"
        and "subtask_num ra = subtask_num st" and "status ra \<noteq> resent"
        by auto
      with o[OF _ ak] show ?thesis by blast
    next
      case False
      with h ak have "m a = Some ra" "m b = Some rb" "subtask_num ra = subtask_num rb"
        "status ra \<noteq> resent" "status rb \<noteq> resent"
        by auto
      from open_uniqueD[OF u this] show ?thesis .
    qed
  qed
qed

lemma open_unique_status:
  assumes u: "open_unique m" and m: "m k = Some r" and s: "s = resent \<or> status r \<noteq> resent"
  shows "open_unique (m(k \<mapsto> r\<lparr>status := s\<rparr>))"
proof (rule open_unique_store[OF u])
  fix k' r'
  assume t: "status (r\<lparr>status := s\<rparr>) \<noteq> resent" and k: "k' \<noteq> k" and m': "m k' = Some r'"
    and n: "subtask_num r' = subtask_num (r\<lparr>status := s\<rparr>)"
  from t s have o: "status r \<noteq> resent" by auto
  from n have n': "subtask_num r' = subtask_num r" by simp
  show "status r' = resent"
  proof (rule ccontr)
    assume "status r' \<noteq> resent"
    from open_uniqueD[OF u m' m n' this o] k show False by simp
  qed
qed

lemma below_cursorD: "below_cursor m c \<Longrightarrow> m k = Some r \<Longrightarrow> subtask_num r < c"
  unfolding below_cursor_def by blast

lemma below_cursor_status:
  "below_cursor m c \<Longrightarrow> m k = Some r \<Longrightarrow> below_cursor (m(k \<mapsto> r\<lparr>status := s\<rparr>)) c"
  by (auto simp: below_cursor_def)

lemma below_cursor_store:
  "below_cursor m c \<Longrightarrow> subtask_num st < c' \<Longrightarrow> c \<le> c' \<Longrightarrow> below_cursor (m(k \<mapsto> st)) c'"
  by (fastforce simp: below_cursor_def)

lemma find_needs_resend_Some:
  assumes "find needs_resend xs = Some (k, r)" and "distinct (map fst xs)"
  shows "map_of xs k = Some r \<and> (status r = failure \<or> status r = restarted)"
proof -
  from assms(1) obtain i where "i < length xs" "needs_resend (xs ! i)" "(k, r) = xs ! i"
    unfolding find_Some_iff by blast
  then have "(k, r) \<in> set xs" and "needs_resend (k, r)"
    by (metis nth_mem, metis)
  with assms(2) show ?thesis
    by (simp add: needs_resend_def)
qed

lemma get_next_subtask_cases:
  obtains (retry) k r where "find needs_resend (subtasks_given t) = Some (k, r)"
      "get_next_subtask t =
         (Inr (subtask_num r),
          t\<lparr>subtasks_given := AList.update k (r\<lparr>status := resent\<rparr>) (subtasks_given t),
            num_failed_subtasks := num_failed_subtasks t - 1\<rparr>)"
  | (first) "find needs_resend (subtasks_given t) = None" "last_task t < total_tasks t"
      "get_next_subtask t = (Inr (last_task t), t\<lparr>last_task := last_task t + 1\<rparr>)"
  | (none) "get_next_subtask t = (Inl AssertionError, t)"
proof (cases "find needs_resend (subtasks_given t)")
  case None
  then show ?thesis
    using first none by (cases "last_task t < total_tasks t") (simp_all add: get_next_subtask_def)
next
  case (Some kr)
  then show ?thesis
    using retry[of "fst kr" "snd kr"] by (simp add: get_next_subtask_def case_prod_beta)
qed

lemma query_extra_data_registry:
  "subtasks_given (snd (query_extra_data t sid nid)) =
     (case fst (get_next_subtask t) of
        Inl e \<Rightarrow> subtasks_given (snd (get_next_subtask t))
      | Inr n \<Rightarrow> AList.update sid
                  \<lparr>subtask_id = sid, subtask_num = n, node_id = nid, status = starting\<rparr>
                  (subtasks_given (snd (get_next_subtask t))))"
  "last_task (snd (query_extra_data t sid nid)) = last_task (snd (get_next_subtask t))"
  by (simp_all add: query_extra_data_def Let_def case_prod_beta split: sum.splits)

lemma accept_results_registry:
  "last_task (snd (accept_results t sid fs)) = last_task t"
  "subtasks_given (snd (accept_results t sid fs)) = subtasks_given t \<or>
   (\<exists>r. map_of (subtasks_given t) sid = Some r \<and> status r = starting \<and>
        subtasks_given (snd (accept_results t sid fs)) =
          AList.update sid (r\<lparr>status := finished\<rparr>) (subtasks_given t))"
  by (auto simp: accept_results_def base_accept_results_def collect_results_def merge_video_def
      Let_def split: option.splits)

lemma computation_failed_registry:
  "last_task (snd (computation_failed t sid)) = last_task t"
  "subtasks_given (snd (computation_failed t sid)) = subtasks_given t \<or>
   (\<exists>r. map_of (subtasks_given t) sid = Some r \<and> status r = starting \<and>
        subtasks_given (snd (computation_failed t sid)) =
          AList.update sid (r\<lparr>status := failure\<rparr>) (subtasks_given t))"
proof -
  have i: "last_task (snd (increment_number_of_subtask_fails t sid)) = last_task t"
    by (simp add: increment_number_of_subtask_fails_def Let_def split: sum.splits option.splits)
  have b: "last_task (snd (base_computation_failed u sid)) = last_task u" for u
    by (simp add: base_computation_failed_def split: option.splits)
  show "last_task (snd (computation_failed t sid)) = last_task t"
    by (simp add: computation_failed_def Let_def case_prod_beta i b split: sum.splits)
  have b': "subtasks_given (snd (base_computation_failed u sid)) = subtasks_given u \<or>
   (\<exists>r. map_of (subtasks_given u) sid = Some r \<and> status r = starting \<and>
        subtasks_given (snd (base_computation_failed u sid)) =
          AList.update sid (r\<lparr>status := failure\<rparr>) (subtasks_given u))" for u
    by (simp add: base_computation_failed_def split: option.splits)
  show "subtasks_given (snd (computation_failed t sid)) = subtasks_given t \<or>
   (\<exists>r. map_of (subtasks_given t) sid = Some r \<and> status r = starting \<and>
        subtasks_given (snd (computation_failed t sid)) =
          AList.update sid (r\<lparr>status := failure\<rparr>) (subtasks_given t))"
  proof (cases "map_of (subtasks_given t) sid")
    case None
    then show ?thesis
      by (simp add: computation_failed_def increment_number_of_subtask_fails_def
          get_subtask_number_from_id_def)
  next
    case (Some r)
    show ?thesis
      unfolding computation_failed_known[OF Some]
      using b'[of "if failure_count t (subtask_num r) + 1 < MAX_SUBTASK_RETRIES_AFTER_FAIL
              then snd (increment_number_of_subtask_fails t sid)
              else (snd (increment_number_of_subtask_fails t sid))
                     \<lparr>subtask_exceeded_max_retries_after_fail := True\<rparr>"]
      by (simp add: increment_fields split: if_splits)
  qed
qed

lemma chunk_closed_not_selected:
  assumes "chunk_closed n t"
  shows "fst (get_next_subtask t) \<noteq> Inr n"
proof (cases t rule: get_next_subtask_cases)
  case (retry k r)
  from assms have d: "distinct (map fst (subtasks_given t))"
    and c: "closed_map n (map_of (subtasks_given t))"
    by (simp_all add: chunk_closed_def)
  from find_needs_resend_Some[OF retry(1) d] closed_map_num[OF c] have "subtask_num r \<noteq> n"
    by blast
  with retry(2) show ?thesis by simp
next
  case first
  with assms show ?thesis by (simp add: chunk_closed_def)
next
  case none
  then show ?thesis by simp
qed

lemma chunk_closed_get_next_subtask:
  assumes "chunk_closed n t"
  shows "chunk_closed n (snd (get_next_subtask t))"
proof (cases t rule: get_next_subtask_cases)
  case (retry k r)
  from assms have d: "distinct (map fst (subtasks_given t))"
    and c: "closed_map n (map_of (subtasks_given t))" and l: "n < last_task t"
    by (simp_all add: chunk_closed_def)
  from find_needs_resend_Some[OF retry(1) d] have m: "map_of (subtasks_given t) k = Some r"
    by simp
  from closed_map_status[OF c m, of resent] d l show ?thesis
    unfolding retry(2) by (simp add: chunk_closed_def update_conv' distinct_update)
next
  case first
  with assms show ?thesis by (simp add: chunk_closed_def)
next
  case none
  with assms show ?thesis by simp
qed

lemma chunk_closed_query_extra_data:
  assumes "chunk_closed n t"
  shows "chunk_closed n (snd (query_extra_data t sid nid))"
proof (cases "fst (get_next_subtask t)")
  case (Inl e)
  with chunk_closed_get_next_subtask[OF assms] show ?thesis
    by (simp add: chunk_closed_def query_extra_data_registry)
next
  case (Inr m)
  with chunk_closed_not_selected[OF assms] have "m \<noteq> n" by auto
  with Inr chunk_closed_get_next_subtask[OF assms] show ?thesis
    by (simp add: chunk_closed_def query_extra_data_registry update_conv' distinct_update
        closed_map_store)
qed

lemma chunk_closed_accept_results:
  assumes "chunk_closed n t"
  shows "chunk_closed n (snd (accept_results t sid fs))"
proof -
  from assms have d: "distinct (map fst (subtasks_given t))"
    and c: "closed_map n (map_of (subtasks_given t))" and l: "n < last_task t"
    by (simp_all add: chunk_closed_def)
  from accept_results_registry(2)[of t sid fs] show ?thesis
  proof
    assume "subtasks_given (snd (accept_results t sid fs)) = subtasks_given t"
    with d c l show ?thesis by (simp add: chunk_closed_def accept_results_registry(1))
  next
    assume "\<exists>r. map_of (subtasks_given t) sid = Some r \<and> status r = starting \<and>
        subtasks_given (snd (accept_results t sid fs)) =
          AList.update sid (r\<lparr>status := finished\<rparr>) (subtasks_given t)"
    then obtain r where m: "map_of (subtasks_given t) sid = Some r"
      and u: "subtasks_given (snd (accept_results t sid fs)) =
          AList.update sid (r\<lparr>status := finished\<rparr>) (subtasks_given t)"
      by blast
    from closed_map_status[OF c m, of finished] d l show ?thesis
      by (simp add: chunk_closed_def accept_results_registry(1) u update_conv' distinct_update)
  qed
qed

lemma chunk_closed_computation_failed:
  assumes "chunk_closed n t"
  shows "chunk_closed n (snd (computation_failed t sid))"
proof -
  from assms have d: "distinct (map fst (subtasks_given t))"
    and c: "closed_map n (map_of (subtasks_given t))" and l: "n < last_task t"
    by (simp_all add: chunk_closed_def)
  from computation_failed_registry(2)[of t sid] show ?thesis
  proof
    assume "subtasks_given (snd (computation_failed t sid)) = subtasks_given t"
    with d c l show ?thesis by (simp add: chunk_closed_def computation_failed_registry(1))
  next
    assume "\<exists>r. map_of (subtasks_given t) sid = Some r \<and> status r = starting \<and>
        subtasks_given (snd (computation_failed t sid)) =
          AList.update sid (r\<lparr>status := failure\<rparr>) (subtasks_given t)"
    then obtain r where m: "map_of (subtasks_given t) sid = Some r" and s: "status r = starting"
      and u: "subtasks_given (snd (computation_failed t sid)) =
          AList.update sid (r\<lparr>status := failure\<rparr>) (subtasks_given t)"
      by blast
    from closed_map_status[OF c m, of failure] s d l show ?thesis
      by (simp add: chunk_closed_def computation_failed_registry(1) u update_conv' distinct_update)
  qed
qed

lemma chunk_closed_step: "chunk_closed n t \<Longrightarrow> chunk_closed n (step t c)"
  by (cases c)
    (simp_all add: chunk_closed_query_extra_data chunk_closed_accept_results
      chunk_closed_computation_failed)

lemma chunk_closed_run: "chunk_closed n t \<Longrightarrow> chunk_closed n (run t cs)"
  unfolding run_def by (induction cs arbitrary: t) (simp_all add: chunk_closed_step)

lemma registry_inv_get_next_subtask:
  assumes "registry_inv t"
  shows "registry_inv (snd (get_next_subtask t))"
proof (cases t rule: get_next_subtask_cases)
  case (retry k r)
  from assms have d: "distinct (map fst (subtasks_given t))"
    and b: "below_cursor (map_of (subtasks_given t)) (last_task t)"
    and u: "open_unique (map_of (subtasks_given t))"
    by (simp_all add: registry_inv_def)
  from find_needs_resend_Some[OF retry(1) d] have m: "map_of (subtasks_given t) k = Some r"
    by simp
  from below_cursor_status[OF b m, of resent] open_unique_status[OF u m, of resent] d
  show ?thesis
    unfolding retry(2) by (simp add: registry_inv_def update_conv' distinct_update)
next
  case first
  from assms have "below_cursor (map_of (subtasks_given t)) (last_task t + 1)"
    by (fastforce simp: registry_inv_def below_cursor_def)
  with first assms show ?thesis by (simp add: registry_inv_def)
next
  case none
  with assms show ?thesis by simp
qed

lemma registry_inv_query_extra_data:
  assumes "registry_inv t"
  shows "registry_inv (snd (query_extra_data t sid nid))"
proof (cases t rule: get_next_subtask_cases)
  case (retry k r)
  let ?st = "\<lparr>subtask_id = sid, subtask_num = subtask_num r, node_id = nid, status = starting\<rparr>"
  let ?m = "map_of (subtasks_given t)"
  from assms have d: "distinct (map fst (subtasks_given t))"
    and b: "below_cursor ?m (last_task t)" and u: "open_unique ?m"
    by (simp_all add: registry_inv_def)
  from find_needs_resend_Some[OF retry(1) d] have m: "?m k = Some r"
    and f: "status r = failure \<or> status r = restarted"
    by simp_all
  from f have o: "status r \<noteq> resent" by auto
  from b m have n: "subtask_num r < last_task t" by (simp add: below_cursor_def)
  have u1: "open_unique (?m(k \<mapsto> r\<lparr>status := resent\<rparr>))"
    by (rule open_unique_status[OF u m]) simp
  have u2: "open_unique ((?m(k \<mapsto> r\<lparr>status := resent\<rparr>))(sid \<mapsto> ?st))"
  proof (rule open_unique_store[OF u1])
    fix k' r'
    assume m': "(?m(k \<mapsto> r\<lparr>status := resent\<rparr>)) k' = Some r'"
      and n': "subtask_num r' = subtask_num ?st"
    show "status r' = resent"
    proof (cases "k' = k")
      case True
      with m' show ?thesis by auto
    next
      case False
      with m' have m'': "?m k' = Some r'" by simp
      from n' have n'': "subtask_num r' = subtask_num r" by simp
      show ?thesis
      proof (rule ccontr)
        assume "status r' \<noteq> resent"
        from open_uniqueD[OF u m'' m n'' this o] False show False by simp
      qed
    qed
  qed
  have b2: "below_cursor ((?m(k \<mapsto> r\<lparr>status := resent\<rparr>))(sid \<mapsto> ?st)) (last_task t)"
    using below_cursor_store[OF below_cursor_status[OF b m, of resent], of ?st "last_task t" sid] n
    by simp
  from u2 b2 d show ?thesis
    by (simp add: registry_inv_def query_extra_data_registry retry(2) update_conv' distinct_update)
next
  case first
  let ?st = "\<lparr>subtask_id = sid, subtask_num = last_task t, node_id = nid, status = starting\<rparr>"
  let ?m = "map_of (subtasks_given t)"
  from assms have d: "distinct (map fst (subtasks_given t))"
    and b: "below_cursor ?m (last_task t)" and u: "open_unique ?m"
    by (simp_all add: registry_inv_def)
  have u2: "open_unique (?m(sid \<mapsto> ?st))"
  proof (rule open_unique_store[OF u])
    fix k' r'
    assume m': "?m k' = Some r'" and n': "subtask_num r' = subtask_num ?st"
    from below_cursorD[OF b m'] n' have False by simp
    then show "status r' = resent" ..
  qed
  have b2: "below_cursor (?m(sid \<mapsto> ?st)) (last_task t + 1)"
    using below_cursor_store[OF b, of ?st "last_task t + 1" sid] by simp
  from u2 b2 d show ?thesis
    by (simp add: registry_inv_def query_extra_data_registry first(3) update_conv' distinct_update)
next
  case none
  with assms show ?thesis by (simp add: query_extra_data_def)
qed

lemma registry_inv_status:
  assumes i: "registry_inv t" and m: "map_of (subtasks_given t) sid = Some r"
    and s: "status r = starting"
    and g: "subtasks_given t' = AList.update sid (r\<lparr>status := s'\<rparr>) (subtasks_given t)"
    and l: "last_task t' = last_task t"
  shows "registry_inv t'"
proof -
  from i have d: "distinct (map fst (subtasks_given t))"
    and b: "below_cursor (map_of (subtasks_given t)) (last_task t)"
    and u: "open_unique (map_of (subtasks_given t))"
    by (simp_all add: registry_inv_def)
  from s have "s' = resent \<or> status r \<noteq> resent" by simp
  from open_unique_status[OF u m this] below_cursor_status[OF b m, of s'] d show ?thesis
    by (simp add: registry_inv_def g l update_conv' distinct_update)
qed

lemma registry_inv_same:
  "registry_inv t \<Longrightarrow> subtasks_given t' = subtasks_given t \<Longrightarrow> last_task t' = last_task t \<Longrightarrow>
   registry_inv t'"
  by (simp add: registry_inv_def)

lemma registry_inv_accept_results:
  assumes "registry_inv t"
  shows "registry_inv (snd (accept_results t sid fs))"
  using accept_results_registry(2)[of t sid fs]
    registry_inv_same[OF assms _ accept_results_registry(1)[of t sid fs]]
    registry_inv_status[OF assms _ _ _ accept_results_registry(1)[of t sid fs]]
  by blast

lemma registry_inv_computation_failed:
  assumes "registry_inv t"
  shows "registry_inv (snd (computation_failed t sid))"
  using computation_failed_registry(2)[of t sid]
    registry_inv_same[OF assms _ computation_failed_registry(1)[of t sid]]
    registry_inv_status[OF assms _ _ _ computation_failed_registry(1)[of t sid]]
  by blast

lemma registry_inv_step: "registry_inv t \<Longrightarrow> registry_inv (step t c)"
  by (cases c)
    (simp_all add: registry_inv_query_extra_data registry_inv_accept_results
      registry_inv_computation_failed)

lemma registry_inv_run: "registry_inv t \<Longrightarrow> registry_inv (run t cs)"
  unfolding run_def by (induction cs arbitrary: t) (simp_all add: registry_inv_step)

lemma registry_inv_new_task: "registry_inv (new_task cs rs out)"
  by (simp add: registry_inv_def new_task_def below_cursor_def open_unique_def)

lemma accept_results_closes_chunk:
  assumes i: "registry_inv t" and m: "map_of (subtasks_given t) sid = Some r"
    and s: "status r = starting"
  shows "chunk_closed (subtask_num r) (snd (accept_results t sid fs))"
proof -
  let ?m = "map_of (subtasks_given t)"
  from i have d: "distinct (map fst (subtasks_given t))"
    and b: "below_cursor ?m (last_task t)" and u: "open_unique ?m"
    by (simp_all add: registry_inv_def)
  have g: "subtasks_given (snd (accept_results t sid fs)) =
             AList.update sid (r\<lparr>status := finished\<rparr>) (subtasks_given t)"
    by (simp add: accept_results_known[OF m s] Let_def merge_video_def)
  from s have o: "status r \<noteq> resent" by simp
  have c: "closed_map (subtask_num r) (?m(sid \<mapsto> r\<lparr>status := finished\<rparr>))"
    unfolding closed_map_def
  proof (intro allI impI)
    fix k' r'
    assume a: "(?m(sid \<mapsto> r\<lparr>status := finished\<rparr>)) k' = Some r' \<and> subtask_num r' = subtask_num r"
    show "status r' = finished \<or> status r' = resent"
    proof (cases "k' = sid")
      case True
      with a show ?thesis by auto
    next
      case False
      with a have m': "?m k' = Some r'" and n: "subtask_num r' = subtask_num r" by auto
      have "status r' = resent"
      proof (rule ccontr)
        assume "status r' \<noteq> resent"
        from open_uniqueD[OF u m' m n this o] False show False by simp
      qed
      then show ?thesis ..
    qed
  qed
  from b m have "subtask_num r < last_task t" by (simp add: below_cursor_def)
  with c d show ?thesis
    by (simp add: chunk_closed_def g accept_results_registry(1) update_conv' distinct_update)
qed

section \<open>C7: a second success notification for the same subtask\<close>

text \<open>
  C7: on a task reached from a new task by any calls, a success notification for an
  outstanding dispatch raises the received-results count by one and appends its files
  to the collected results; a second success notification with the same subtask id is
  turned away by the base class before \<open>accept_results\<close> collects or counts anything,
  so it leaves the whole task as it was (count and collected files included) and the
  subtask stays \<open>finished\<close>. Whatever is called afterwards, duplicates included, the
  selector never returns the chunk of that subtask again and \<open>query_extra_data\<close>
  never dispatches it.
\<close>

theorem duplicate_success_ignored:
  assumes t: "t = run (new_task cs rs out) before"
    and r: "map_of (subtasks_given t) sid = Some r" and s: "status r = starting"
  shows "num_tasks_received (snd (accept_results t sid fs)) = num_tasks_received t + 1 \<and>
         collected_files (snd (accept_results t sid fs)) = collected_files t @ fs \<and>
         accept_results (snd (accept_results t sid fs)) sid fs' =
           (Inl UnknownDispatch, snd (accept_results t sid fs)) \<and>
         map_of (subtasks_given (snd (accept_results t sid fs))) sid = Some (r\<lparr>status := finished\<rparr>) \<and>
         (\<forall>after. fst (get_next_subtask (run (snd (accept_results t sid fs)) after)) \<noteq>
                    Inr (subtask_num r)) \<and>
         (\<forall>after sid' nid c.
            fst (query_extra_data (run (snd (accept_results t sid fs)) after) sid' nid) \<noteq>
              Inr (sid', subtask_num r, c))"
proof -
  let ?t1 = "snd (accept_results t sid fs)"
  let ?u = "AList.update sid (r\<lparr>status := finished\<rparr>) (subtasks_given t)"
  have sg: "subtasks_given ?t1 = ?u"
    and cnt: "num_tasks_received ?t1 = num_tasks_received t + 1"
    and col: "collected_files ?t1 = collected_files t @ fs"
    by (simp_all add: accept_results_known[OF r s] Let_def merge_video_def)
  have m: "map_of (subtasks_given ?t1) sid = Some (r\<lparr>status := finished\<rparr>)"
    by (simp add: sg update_conv')
  have dup: "accept_results ?t1 sid fs' = (Inl UnknownDispatch, ?t1)"
    by (rule accept_results_unknown) (simp add: m)
  have i: "registry_inv t"
    unfolding t by (rule registry_inv_run[OF registry_inv_new_task])
  have c: "chunk_closed (subtask_num r) (run ?t1 after)" for after
    by (rule chunk_closed_run[OF accept_results_closes_chunk[OF i r s]])
  have n: "fst (get_next_subtask (run ?t1 after)) \<noteq> Inr (subtask_num r)" for after
    by (rule chunk_closed_not_selected[OF c])
  have q: "fst (query_extra_data (run ?t1 after) sid' nid) \<noteq> Inr (sid', subtask_num r, c)"
    for after sid' nid c
  proof
    assume a: "fst (query_extra_data (run ?t1 after) sid' nid) = Inr (sid', subtask_num r, c)"
    have "fst (get_next_subtask (run ?t1 after)) = Inr (subtask_num r)"
    proof (cases "fst (get_next_subtask (run ?t1 after))")
      case (Inl e)
      with a show ?thesis
        by (simp add: query_extra_data_def case_prod_beta)
    next
      case (Inr k)
      with a show ?thesis
        by (simp add: query_extra_data_def case_prod_beta Let_def split: sum.splits)
    qed
    with n[of after] show False by simp
  qed
  from cnt col dup m n q show ?thesis by blast
qed

theorem duplicate_success_ignored_witness:
  "one_dispatched_task =
     run (new_task [''c0'', ''c1''] [''in.mp4''] ''out/final.mp4'') [QueryExtraData ''a'' None] \<and>
   map_of (subtasks_given one_dispatched_task) ''a'' =
     Some \<lparr>subtask_id = ''a'', subtask_num = 0, node_id = None, status = starting\<rparr> \<and>
   num_tasks_received (snd (accept_results one_dispatched_task ''a'' [''r0''])) = 1 \<and>
   collected_files (snd (accept_results one_dispatched_task ''a'' [''r0''])) = [''r0''] \<and>
   accept_results (snd (accept_results one_dispatched_task ''a'' [''r0''])) ''a'' [''r0''] =
     (Inl UnknownDispatch, snd (accept_results one_dispatched_task ''a'' [''r0''])) \<and>
   fst (get_next_subtask (run (snd (accept_results one_dispatched_task ''a'' [''r0'']))
          [AcceptResults ''a'' [''r0''], ComputationFailed ''a''])) \<noteq> Inr 0 \<and>
   fst (query_extra_data (run (snd (accept_results one_dispatched_task ''a'' [''r0'']))
          [AcceptResults ''a'' [''r0''], ComputationFailed ''a'']) ''b'' None) \<noteq>
     Inr (''b'', 0, ''c0'')"
proof -
  let ?r = "\<lparr>subtask_id = ''a'', subtask_num = 0, node_id = None, status = starting\<rparr>"
  have e: "one_dispatched_task =
     run (new_task [''c0'', ''c1''] [''in.mp4''] ''out/final.mp4'') [QueryExtraData ''a'' None]"
    by (simp add: one_dispatched_task_def demo_task_def)
  have h: "map_of (subtasks_given one_dispatched_task) ''a'' = Some ?r"
    by code_simp
  have s: "status ?r = starting"
    by simp
  have n: "num_tasks_received one_dispatched_task = 0" "collected_files one_dispatched_task = []"
    by code_simp+
  note w = duplicate_success_ignored[OF e h s, of "[''r0'']" "[''r0'']", simplified]
  from w n have a1: "num_tasks_received (snd (accept_results one_dispatched_task ''a'' [''r0''])) = 1"
    and a2: "collected_files (snd (accept_results one_dispatched_task ''a'' [''r0''])) = [''r0'']"
    by simp_all
  from w have a3: "accept_results (snd (accept_results one_dispatched_task ''a'' [''r0''])) ''a'' [''r0''] =
     (Inl UnknownDispatch, snd (accept_results one_dispatched_task ''a'' [''r0'']))"
    by blast
  from w have a4: "fst (get_next_subtask (run (snd (accept_results one_dispatched_task ''a'' [''r0'']))
          [AcceptResults ''a'' [''r0''], ComputationFailed ''a''])) \<noteq> Inr 0"
    by blast
  from w have a5: "fst (query_extra_data (run (snd (accept_results one_dispatched_task ''a'' [''r0'']))
          [AcceptResults ''a'' [''r0''], ComputationFailed ''a'']) ''b'' None) \<noteq>
     Inr (''b'', 0, ''c0'')"
    by blast
  from e h a1 a2 a3 a4 a5 show ?thesis by blast
qed

end
